theory Spec2Isabelle
  imports Complex_Main
begin

section \<open>Numbers\<close>

text \<open>
  The two notebooks compute with double-precision numbers (Python floats and numpy
  float64 scalars and arrays). A double is modelled as a real number or one of the
  three special values of IEEE 754 that the code can produce and pass on: the two
  infinities and not-a-number.

  The range of a double is modelled: a result whose magnitude reaches
  \<open>2\<^sup>1\<^sup>0\<^sup>2\<^sup>4 - 2\<^sup>9\<^sup>7\<^sup>0\<close>, the least real that rounds to an infinity, overflows to
  the infinity of its sign, and a product, quotient or function value whose magnitude
  is at most \<open>2\<^sup>-\<^sup>1\<^sup>0\<^sup>7\<^sup>5\<close>, half the least positive double, underflows to zero. A sum of
  two doubles never underflows. Rounding inside the range and the sign of zero are not
  modelled: a result inside the range is the exact real result, and zero is the
  positive zero.
\<close>

datatype float64 = Fin real | PosInf | NegInf | NaN

definition overflow_threshold :: real where
  "overflow_threshold = 2 ^ 1024 - 2 ^ 970"

definition underflow_threshold :: real where
  "underflow_threshold = 1 / 2 ^ 1075"

definition to_inf :: "real \<Rightarrow> float64" where
  "to_inf x =
     (if overflow_threshold \<le> x then PosInf
      else if x \<le> - overflow_threshold then NegInf
      else Fin x)"

definition to_double :: "real \<Rightarrow> float64" where
  "to_double x = (if \<bar>x\<bar> \<le> underflow_threshold then Fin 0 else to_inf x)"

instantiation float64 :: "{plus, uminus, minus, times, inverse, abs, ord}"
begin

fun plus_float64 :: "float64 \<Rightarrow> float64 \<Rightarrow> float64" where
  "plus_float64 NaN y = NaN"
| "plus_float64 x NaN = NaN"
| "plus_float64 (Fin a) (Fin b) = to_inf (a + b)"
| "plus_float64 (Fin a) y = y"
| "plus_float64 x (Fin b) = x"
| "plus_float64 PosInf PosInf = PosInf"
| "plus_float64 NegInf NegInf = NegInf"
| "plus_float64 PosInf NegInf = NaN"
| "plus_float64 NegInf PosInf = NaN"

fun uminus_float64 :: "float64 \<Rightarrow> float64" where
  "uminus_float64 (Fin a) = Fin (- a)"
| "uminus_float64 PosInf = NegInf"
| "uminus_float64 NegInf = PosInf"
| "uminus_float64 NaN = NaN"

definition minus_float64 :: "float64 \<Rightarrow> float64 \<Rightarrow> float64" where
  "minus_float64 x y = x + (- y)"

fun times_float64 :: "float64 \<Rightarrow> float64 \<Rightarrow> float64" where
  "times_float64 NaN y = NaN"
| "times_float64 x NaN = NaN"
| "times_float64 (Fin a) (Fin b) = to_double (a * b)"
| "times_float64 (Fin a) PosInf = (if a = 0 then NaN else if 0 < a then PosInf else NegInf)"
| "times_float64 (Fin a) NegInf = (if a = 0 then NaN else if 0 < a then NegInf else PosInf)"
| "times_float64 PosInf (Fin b) = (if b = 0 then NaN else if 0 < b then PosInf else NegInf)"
| "times_float64 NegInf (Fin b) = (if b = 0 then NaN else if 0 < b then NegInf else PosInf)"
| "times_float64 PosInf PosInf = PosInf"
| "times_float64 NegInf NegInf = PosInf"
| "times_float64 PosInf NegInf = NegInf"
| "times_float64 NegInf PosInf = NegInf"

text \<open>
  Division of doubles as numpy performs it: a zero divisor gives an infinity, or
  not-a-number for 0/0, with a warning and no exception.
\<close>

fun divide_float64 :: "float64 \<Rightarrow> float64 \<Rightarrow> float64" where
  "divide_float64 NaN y = NaN"
| "divide_float64 x NaN = NaN"
| "divide_float64 (Fin a) (Fin b) =
     (if b \<noteq> 0 then to_double (a / b)
      else if a = 0 then NaN else if 0 < a then PosInf else NegInf)"
| "divide_float64 (Fin a) y = Fin 0"
| "divide_float64 PosInf (Fin b) = (if 0 \<le> b then PosInf else NegInf)"
| "divide_float64 NegInf (Fin b) = (if 0 \<le> b then NegInf else PosInf)"
| "divide_float64 x y = NaN"

fun inverse_float64 :: "float64 \<Rightarrow> float64" where
  "inverse_float64 (Fin b) = (if b \<noteq> 0 then to_double (1 / b) else PosInf)"
| "inverse_float64 PosInf = Fin 0"
| "inverse_float64 NegInf = Fin 0"
| "inverse_float64 NaN = NaN"

fun abs_float64 :: "float64 \<Rightarrow> float64" where
  "abs_float64 (Fin a) = Fin \<bar>a\<bar>"
| "abs_float64 PosInf = PosInf"
| "abs_float64 NegInf = PosInf"
| "abs_float64 NaN = NaN"

text \<open>Comparisons: every comparison with not-a-number is false.\<close>

fun less_float64 :: "float64 \<Rightarrow> float64 \<Rightarrow> bool" where
  "less_float64 NaN y = False"
| "less_float64 x NaN = False"
| "less_float64 (Fin a) (Fin b) = (a < b)"
| "less_float64 x PosInf = (x \<noteq> PosInf)"
| "less_float64 NegInf y = (y \<noteq> NegInf)"
| "less_float64 x y = False"

fun less_eq_float64 :: "float64 \<Rightarrow> float64 \<Rightarrow> bool" where
  "less_eq_float64 NaN y = False"
| "less_eq_float64 x NaN = False"
| "less_eq_float64 (Fin a) (Fin b) = (a \<le> b)"
| "less_eq_float64 x PosInf = True"
| "less_eq_float64 NegInf y = True"
| "less_eq_float64 x y = False"

instance ..

end

text \<open>
  \<^verbatim>\<open>np.log\<close>, \<^verbatim>\<open>np.exp\<close>, \<^verbatim>\<open>np.sqrt\<close> and \<^verbatim>\<open>np.maximum\<close>. The exponential overflows
  to infinity and underflows to zero; the logarithm and the square root of a double
  are inside the range.
\<close>

fun np_log :: "float64 \<Rightarrow> float64" where
  "np_log (Fin a) = (if 0 < a then Fin (ln a) else if a = 0 then NegInf else NaN)"
| "np_log PosInf = PosInf"
| "np_log NegInf = NaN"
| "np_log NaN = NaN"

fun np_exp :: "float64 \<Rightarrow> float64" where
  "np_exp (Fin a) = to_double (exp a)"
| "np_exp PosInf = PosInf"
| "np_exp NegInf = Fin 0"
| "np_exp NaN = NaN"

fun np_sqrt :: "float64 \<Rightarrow> float64" where
  "np_sqrt (Fin a) = (if 0 \<le> a then Fin (sqrt a) else NaN)"
| "np_sqrt PosInf = PosInf"
| "np_sqrt NegInf = NaN"
| "np_sqrt NaN = NaN"

fun np_maximum :: "float64 \<Rightarrow> float64 \<Rightarrow> float64" where
  "np_maximum NaN y = NaN"
| "np_maximum x NaN = NaN"
| "np_maximum x y = (if x < y then y else x)"

text \<open>
  \<^verbatim>\<open>np.mean\<close>: the sum divided by the number of elements; the mean of no elements
  is 0/0, not-a-number.
\<close>

definition np_mean :: "float64 list \<Rightarrow> float64" where
  "np_mean xs = foldr (+) xs (Fin 0) / Fin (real (length xs))"

text \<open>
  \<^verbatim>\<open>np.linspace(start, stop, num)\<close>: \<open>num\<close> samples, the \<open>i\<close>-th being
  \<open>i * step + start\<close> with \<open>step = (stop - start) / (num - 1)\<close>, or
  \<open>i / (num - 1) * (stop - start) + start\<close> when the step is zero, and the last one
  set to \<open>stop\<close>.
\<close>

definition np_linspace :: "float64 \<Rightarrow> float64 \<Rightarrow> nat \<Rightarrow> float64 list" where
  "np_linspace start stop num =
     (if num = 0 then []
      else if num = 1 then [start]
      else (let delta = stop - start;
                intervals = Fin (real (num - 1));
                step = delta / intervals
            in map (\<lambda>i. (if step = Fin 0 then Fin (real i) / intervals * delta
                         else Fin (real i) * step) + start) [0..<num - 1]
               @ [stop]))"

section \<open>Errors\<close>

text \<open>
  The exceptions the code can raise. The first three are the three
  \<^verbatim>\<open>raise ValueError(...)\<close> statements of the source, told apart by their message:
  "Invalid option type. Use 'call' or 'put'.", "Zero Vega encountered, iteration
  stopped." and "Implied volatility did not converge.". \<open>ZeroDivisionError\<close> is what
  Python raises when a plain float is divided by a plain zero, \<open>OverflowError\<close> what
  it raises when the power of a plain float overflows, \<open>UnboundLocalError\<close> what it
  raises when a local variable is read before any assignment.
\<close>

datatype error =
  InvalidOptionType | ZeroVega | NoConvergence | ZeroDivisionError | OverflowError
  | UnboundLocalError

fun is_ValueError :: "error \<Rightarrow> bool" where
  "is_ValueError InvalidOptionType = True"
| "is_ValueError ZeroVega = True"
| "is_ValueError NoConvergence = True"
| "is_ValueError ZeroDivisionError = False"
| "is_ValueError OverflowError = False"
| "is_ValueError UnboundLocalError = False"

text \<open>
  Two operations are performed by the interpreter itself when their operands are plain
  Python floats, and by numpy when an operand is a numpy float64: the division
  \<^verbatim>\<open>S / K\<close> and the power \<^verbatim>\<open>sigma**2\<close>. On plain floats a zero divisor and an
  overflowing power raise, on numpy floats they give an infinity or not-a-number. The
  strike and the volatility therefore carry their run-time type: an element of the
  strike grid, a simulated volatility and an updated estimate of the solver are numpy
  floats, an argument written in a script is a plain float. The spot price \<open>S\<close> is a
  plain number, as the docstrings say and as both scripts pass it.
\<close>

datatype pynum = PyFloat float64 | NpFloat64 float64

fun val :: "pynum \<Rightarrow> float64" where
  "val (PyFloat x) = x"
| "val (NpFloat64 x) = x"

fun truediv :: "float64 \<Rightarrow> pynum \<Rightarrow> error + float64" where
  "truediv S (PyFloat k) = (if k = Fin 0 then Inl ZeroDivisionError else Inr (S / k))"
| "truediv S (NpFloat64 k) = Inr (S / k)"

text \<open>\<^verbatim>\<open>x**2\<close>\<close>

fun square :: "pynum \<Rightarrow> error + float64" where
  "square (PyFloat (Fin a)) =
     (if overflow_threshold \<le> a * a then Inl OverflowError else Inr (Fin a * Fin a))"
| "square (PyFloat x) = Inr (x * x)"
| "square (NpFloat64 x) = Inr (x * x)"

section \<open>The standard normal distribution\<close>

text \<open>
  \<^verbatim>\<open>scipy.stats.norm\<close> is not part of the repository: the distribution function and the
  density on the reals are a parameter of the model. Their values underflow to zero as
  every double does, and on the special values they behave as scipy's do.
\<close>

record norm_dist =
  cdf :: "real \<Rightarrow> real"
  pdf :: "real \<Rightarrow> real"

fun norm_cdf :: "norm_dist \<Rightarrow> float64 \<Rightarrow> float64" where
  "norm_cdf P (Fin x) = to_double (cdf P x)"
| "norm_cdf P PosInf = Fin 1"
| "norm_cdf P NegInf = Fin 0"
| "norm_cdf P NaN = NaN"

fun norm_pdf :: "norm_dist \<Rightarrow> float64 \<Rightarrow> float64" where
  "norm_pdf P (Fin x) = to_double (pdf P x)"
| "norm_pdf P PosInf = Fin 0"
| "norm_pdf P NegInf = Fin 0"
| "norm_pdf P NaN = NaN"

section \<open>Closed-form pricers\<close>

text \<open>\<^verbatim>\<open>BSM\<close> of main.py.\<close>

definition BSM ::
  "norm_dist \<Rightarrow> float64 \<Rightarrow> pynum \<Rightarrow> float64 \<Rightarrow> float64 \<Rightarrow> pynum \<Rightarrow> string \<Rightarrow> error + float64" where
  "BSM P St K T r sigma OPT =
     (case truediv St K of
        Inl e \<Rightarrow> Inl e
      | Inr q \<Rightarrow>
          (case square sigma of
             Inl e \<Rightarrow> Inl e
           | Inr sq \<Rightarrow>
               (let d1 = (np_log q + (r + Fin 0.5 * sq) * T) / (np_sqrt T * val sigma);
                    d2 = d1 - val sigma * np_sqrt T
                in if OPT = ''call''
                   then Inr (St * norm_cdf P d1 - val K * np_exp ((- r) * T) * norm_cdf P d2)
                   else Inr ((- St) * norm_cdf P (- d1)
                             + val K * np_exp ((- r) * T) * norm_cdf P (- d2)))))"

text \<open>\<^verbatim>\<open>black_scholes\<close> of mc_simulation_of_implied_volatility.py.\<close>

definition black_scholes ::
  "norm_dist \<Rightarrow> float64 \<Rightarrow> pynum \<Rightarrow> float64 \<Rightarrow> float64 \<Rightarrow> pynum \<Rightarrow> string \<Rightarrow> error + float64" where
  "black_scholes P S K T r sigma option_type =
     (case truediv S K of
        Inl e \<Rightarrow> Inl e
      | Inr q \<Rightarrow>
          (case square sigma of
             Inl e \<Rightarrow> Inl e
           | Inr sq \<Rightarrow>
               (let d1 = (np_log q + (r + Fin 0.5 * sq) * T) / (val sigma * np_sqrt T);
                    d2 = d1 - val sigma * np_sqrt T
                in if option_type = ''call''
                   then Inr (S * norm_cdf P d1 - val K * np_exp ((- r) * T) * norm_cdf P d2)
                   else if option_type = ''put''
                   then Inr (val K * np_exp ((- r) * T) * norm_cdf P (- d2)
                             - S * norm_cdf P (- d1))
                   else Inl InvalidOptionType)))"

section \<open>Implied volatility\<close>

text \<open>
  The loop of \<^verbatim>\<open>implied_volatility\<close>: \<open>n\<close> is the number of iterations that
  \<^verbatim>\<open>range(max_iter)\<close> has left, \<open>sigma\<close> the current estimate. The estimate starts as
  the plain float 0.2; the update \<^verbatim>\<open>sigma += diff / vega\<close> adds a numpy float and makes
  it a numpy float.
\<close>

fun newton_loop ::
  "norm_dist \<Rightarrow> float64 \<Rightarrow> pynum \<Rightarrow> float64 \<Rightarrow> float64 \<Rightarrow> float64 \<Rightarrow> string \<Rightarrow> float64 \<Rightarrow>
     nat \<Rightarrow> pynum \<Rightarrow> error + float64" where
  "newton_loop P S K T r market_price option_type tol 0 sigma = Inl NoConvergence"
| "newton_loop P S K T r market_price option_type tol (Suc n) sigma =
     (case black_scholes P S K T r sigma option_type of
        Inl e \<Rightarrow> Inl e
      | Inr price \<Rightarrow>
          (case truediv S K of
             Inl e \<Rightarrow> Inl e
           | Inr q \<Rightarrow>
               (case square sigma of
                  Inl e \<Rightarrow> Inl e
                | Inr sq \<Rightarrow>
                    (let vega = S * norm_pdf P ((np_log q + (r + Fin 0.5 * sq) * T)
                                                 / (val sigma * np_sqrt T)) * np_sqrt T
                     in if vega = Fin 0 then Inl ZeroVega
                        else (let diff = market_price - price
                              in if \<bar>diff\<bar> < tol then Inr (val sigma)
                                 else newton_loop P S K T r market_price option_type tol n
                                        (NpFloat64 (val sigma + diff / vega)))))))"

definition implied_volatility ::
  "norm_dist \<Rightarrow> float64 \<Rightarrow> pynum \<Rightarrow> float64 \<Rightarrow> float64 \<Rightarrow> float64 \<Rightarrow> string \<Rightarrow> float64 \<Rightarrow>
     nat \<Rightarrow> error + float64" where
  "implied_volatility P S K T r market_price option_type tol max_iter =
     newton_loop P S K T r market_price option_type tol max_iter (PyFloat (Fin 0.2))"

text \<open>The default values \<^verbatim>\<open>tol=1e-5\<close> and \<^verbatim>\<open>max_iter=100\<close>.\<close>

definition default_tol :: float64 where
  "default_tol = Fin (1 / 100000)"

definition default_max_iter :: nat where
  "default_max_iter = 100"

section \<open>The random source\<close>

text \<open>
  \<^verbatim>\<open>np.random\<close> is a global generator: a draw returns the variates and leaves the
  generator in a new state. The generator is a parameter of the model, its state is
  passed along.
\<close>

record 'g random_source =
  standard_normal :: "'g \<Rightarrow> nat \<Rightarrow> float64 list \<times> 'g"
  normal :: "'g \<Rightarrow> float64 \<Rightarrow> float64 \<Rightarrow> nat \<Rightarrow> float64 list \<times> 'g"

section \<open>Monte Carlo pricer\<close>

text \<open>
  \<^verbatim>\<open>monte_carlo_option_pricing\<close> of main.py. The shocks are drawn before
  \<^verbatim>\<open>sigma**2\<close> is evaluated. The variable \<^verbatim>\<open>payoff\<close> is assigned in the two branches
  of an \<^verbatim>\<open>if\<close>/\<^verbatim>\<open>elif\<close> with no \<^verbatim>\<open>else\<close>.
\<close>

definition monte_carlo_option_pricing ::
  "'g random_source \<Rightarrow> 'g \<Rightarrow> float64 \<Rightarrow> float64 \<Rightarrow> float64 \<Rightarrow> float64 \<Rightarrow> pynum \<Rightarrow> nat \<Rightarrow> string \<Rightarrow>
     (error + float64) \<times> 'g" where
  "monte_carlo_option_pricing rng g S0 K T r sigma N option_type =
     (let (Z, g') = standard_normal rng g N
      in case square sigma of
           Inl e \<Rightarrow> (Inl e, g')
         | Inr sq \<Rightarrow>
             (let ST = map (\<lambda>z. S0 * np_exp ((r - Fin 0.5 * sq) * T + val sigma * z * np_sqrt T)) Z;
                  payoff = (if option_type = ''call''
                            then Inr (map (\<lambda>s. np_maximum (Fin 0) (s - K)) ST)
                            else if option_type = ''put''
                            then Inr (map (\<lambda>s. np_maximum (Fin 0) (K - s)) ST)
                            else Inl UnboundLocalError)
              in (case payoff of
                    Inl e \<Rightarrow> (Inl e, g')
                  | Inr p \<Rightarrow> (Inr (np_exp ((- r) * T) * np_mean p), g'))))"

section \<open>Volatility smile\<close>

text \<open>A list comprehension whose element expression may raise.\<close>

fun collect :: "('a \<Rightarrow> error + 'b) \<Rightarrow> 'a list \<Rightarrow> error + 'b list" where
  "collect f [] = Inr []"
| "collect f (x # xs) =
     (case f x of
        Inl e \<Rightarrow> Inl e
      | Inr y \<Rightarrow> (case collect f xs of Inl e \<Rightarrow> Inl e | Inr ys \<Rightarrow> Inr (y # ys)))"

text \<open>
  The body of the \<^verbatim>\<open>for K in strike_prices\<close> loop of
  \<^verbatim>\<open>monte_carlo_volatility_smile\<close>, and the loop. The strike and the simulated
  volatilities are elements of numpy arrays. The \<^verbatim>\<open>try\<close> block catches
  \<^verbatim>\<open>ValueError\<close> only; any other exception leaves the function.
\<close>

definition smile_entry ::
  "norm_dist \<Rightarrow> float64 \<Rightarrow> float64 \<Rightarrow> float64 \<Rightarrow> float64 \<Rightarrow> float64 list \<Rightarrow> error + float64" where
  "smile_entry P S T r K simulated_vols =
     (case collect (\<lambda>sigma. black_scholes P S (NpFloat64 K) T r (NpFloat64 sigma) ''call'')
             simulated_vols of
        Inl e \<Rightarrow> Inl e
      | Inr market_prices \<Rightarrow>
          (let avg_market_price = np_mean market_prices
           in case implied_volatility P S (NpFloat64 K) T r avg_market_price ''call''
                     default_tol default_max_iter of
                Inr iv \<Rightarrow> Inr iv
              | Inl e \<Rightarrow> if is_ValueError e then Inr NaN else Inl e))"

fun smile_loop ::
  "norm_dist \<Rightarrow> 'g random_source \<Rightarrow> float64 \<Rightarrow> float64 \<Rightarrow> float64 \<Rightarrow> float64 \<Rightarrow> nat \<Rightarrow>
     float64 list \<Rightarrow> float64 list \<Rightarrow> 'g \<Rightarrow> (error + float64 list) \<times> 'g" where
  "smile_loop P rng S T r base_volatility n_simulations [] implied_vols g = (Inr implied_vols, g)"
| "smile_loop P rng S T r base_volatility n_simulations (K # Ks) implied_vols g =
     (let (simulated_vols, g') = normal rng g base_volatility (Fin 0.05) n_simulations
      in case smile_entry P S T r K simulated_vols of
           Inl e \<Rightarrow> (Inl e, g')
         | Inr iv \<Rightarrow>
             smile_loop P rng S T r base_volatility n_simulations Ks (implied_vols @ [iv]) g')"

text \<open>
  \<^verbatim>\<open>monte_carlo_volatility_smile\<close>. The number of strikes is the literal 50 of the
  call of \<^verbatim>\<open>np.linspace\<close>: the function has no parameter for it.
\<close>

definition monte_carlo_volatility_smile ::
  "norm_dist \<Rightarrow> 'g random_source \<Rightarrow> 'g \<Rightarrow> float64 \<Rightarrow> float64 \<Rightarrow> float64 \<Rightarrow> float64 \<Rightarrow> nat \<Rightarrow>
     (error + float64 list \<times> float64 list) \<times> 'g" where
  "monte_carlo_volatility_smile P rng g S T r base_volatility n_simulations =
     (let strike_prices = np_linspace (S * Fin 0.8) (S * Fin 1.2) 50
      in case smile_loop P rng S T r base_volatility n_simulations strike_prices [] g of
           (Inl e, g') \<Rightarrow> (Inl e, g')
         | (Inr implied_vols, g') \<Rightarrow> (Inr (strike_prices, implied_vols), g'))"

section \<open>The standard normal distribution of scipy\<close>

text \<open>
  The distribution that \<^verbatim>\<open>scipy.stats.norm\<close> implements: the density
  \<open>exp (- x\<^sup>2 / 2) / sqrt (2 pi)\<close>, and its distribution function, one half plus
  the integral of the density from 0 to \<open>x\<close>, written as the power series of that
  integral.
\<close>

definition std_norm_pdf :: "real \<Rightarrow> real" where
  "std_norm_pdf x = exp (- (x\<^sup>2) / 2) / sqrt (2 * pi)"

definition gauss_term :: "real \<Rightarrow> nat \<Rightarrow> real" where
  "gauss_term x n = (- 1) ^ n * x ^ (2 * n + 1) / (2 ^ n * fact n * real (2 * n + 1))"

definition std_norm_cdf :: "real \<Rightarrow> real" where
  "std_norm_cdf x = 1 / 2 + (\<Sum>n. gauss_term x n) / sqrt (2 * pi)"

definition scipy_norm :: norm_dist where
  "scipy_norm = \<lparr>cdf = std_norm_cdf, pdf = std_norm_pdf\<rparr>"

section \<open>The formulas of the specification\<close>

text \<open>
  The Black-Scholes-Merton formulas on the reals, as the specification writes them:
  \<open>d1 = (ln (S/K) + (r + \<sigma>\<^sup>2/2) T) / (\<sigma> \<surd>T)\<close>, \<open>d2 = d1 - \<sigma> \<surd>T\<close>, the call price
  \<open>S \<Phi>(d1) - K e\<^sup>-\<^sup>r\<^sup>T \<Phi>(d2)\<close> and the put price \<open>K e\<^sup>-\<^sup>r\<^sup>T \<Phi>(-d2) - S \<Phi>(-d1)\<close>.
\<close>

definition d1_formula :: "real \<Rightarrow> real \<Rightarrow> real \<Rightarrow> real \<Rightarrow> real \<Rightarrow> real" where
  "d1_formula s k t \<rho> v = (ln (s / k) + (\<rho> + v\<^sup>2 / 2) * t) / (v * sqrt t)"

definition d2_formula :: "real \<Rightarrow> real \<Rightarrow> real \<Rightarrow> real \<Rightarrow> real \<Rightarrow> real" where
  "d2_formula s k t \<rho> v = d1_formula s k t \<rho> v - v * sqrt t"

definition call_formula :: "norm_dist \<Rightarrow> real \<Rightarrow> real \<Rightarrow> real \<Rightarrow> real \<Rightarrow> real \<Rightarrow> real" where
  "call_formula P s k t \<rho> v =
     s * cdf P (d1_formula s k t \<rho> v) - k * exp (- \<rho> * t) * cdf P (d2_formula s k t \<rho> v)"

definition put_formula :: "norm_dist \<Rightarrow> real \<Rightarrow> real \<Rightarrow> real \<Rightarrow> real \<Rightarrow> real \<Rightarrow> real" where
  "put_formula P s k t \<rho> v =
     k * exp (- \<rho> * t) * cdf P (- d2_formula s k t \<rho> v) - s * cdf P (- d1_formula s k t \<rho> v)"

section \<open>The Monte Carlo estimate of the specification\<close>

text \<open>
  The terminal price of a scenario with shock \<open>z\<close>,
  \<open>S exp ((r - \<sigma>\<^sup>2/2) T + \<sigma> z \<surd>T)\<close>, and the payoff of a scenario: \<open>max (0, S\<^sub>T - K)\<close>
  for a call, \<open>max (0, K - S\<^sub>T)\<close> for a put.
\<close>

definition terminal_price :: "real \<Rightarrow> real \<Rightarrow> real \<Rightarrow> real \<Rightarrow> real \<Rightarrow> real" where
  "terminal_price s t \<rho> v z = s * exp ((\<rho> - v\<^sup>2 / 2) * t + v * z * sqrt t)"

definition payoff_formula :: "string \<Rightarrow> real \<Rightarrow> real \<Rightarrow> real" where
  "payoff_formula option_type k st =
     (if option_type = ''call'' then max 0 (st - k) else max 0 (k - st))"

section \<open>A deterministic random source\<close>

text \<open>
  A source that replays a recorded list of standard normal variates: a draw of \<open>n\<close>
  takes the next \<open>n\<close> of them, scaled and shifted for \<^verbatim>\<open>normal(loc, scale, n)\<close>.
\<close>

definition replay :: "float64 list random_source" where
  "replay = \<lparr>standard_normal = (\<lambda>g n. (take n g, drop n g)),
             normal = (\<lambda>g loc scale n. (map (\<lambda>z. loc + scale * z) (take n g), drop n g))\<rparr>"

section \<open>The Newton-Raphson iteration of the specification\<close>

text \<open>
  The quantities of the solver as the specification names them: the price of the
  closed-form pricer at a volatility, vega \<open>S \<phi>(d1) \<surd>T\<close>, the convergence test
  \<open>|marketPrice - price| < tolerance\<close>, the update \<open>\<sigma> + diff / vega\<close>, the \<open>i\<close>-th
  estimate from an initial guess, and the condition under which an iteration neither
  fails nor returns. The volatility is a double, squared as numpy squares it.
\<close>

definition price_at ::
  "norm_dist \<Rightarrow> float64 \<Rightarrow> pynum \<Rightarrow> float64 \<Rightarrow> float64 \<Rightarrow> string \<Rightarrow> float64 \<Rightarrow> float64" where
  "price_at P S K T r option_type sigma =
     (case black_scholes P S K T r (NpFloat64 sigma) option_type of
        Inr price \<Rightarrow> price
      | Inl e \<Rightarrow> NaN)"

definition vega_at :: "norm_dist \<Rightarrow> float64 \<Rightarrow> pynum \<Rightarrow> float64 \<Rightarrow> float64 \<Rightarrow> float64 \<Rightarrow> float64" where
  "vega_at P S K T r sigma =
     S * norm_pdf P ((np_log (S / val K) + (r + Fin 0.5 * (sigma * sigma)) * T)
                     / (sigma * np_sqrt T))
       * np_sqrt T"

definition converged_at ::
  "norm_dist \<Rightarrow> float64 \<Rightarrow> pynum \<Rightarrow> float64 \<Rightarrow> float64 \<Rightarrow> float64 \<Rightarrow> string \<Rightarrow> float64 \<Rightarrow> float64 \<Rightarrow> bool" where
  "converged_at P S K T r market_price option_type tol sigma =
     (\<bar>market_price - price_at P S K T r option_type sigma\<bar> < tol)"

definition newton_step ::
  "norm_dist \<Rightarrow> float64 \<Rightarrow> pynum \<Rightarrow> float64 \<Rightarrow> float64 \<Rightarrow> float64 \<Rightarrow> string \<Rightarrow> float64 \<Rightarrow> float64" where
  "newton_step P S K T r market_price option_type sigma =
     sigma + (market_price - price_at P S K T r option_type sigma) / vega_at P S K T r sigma"

definition estimate ::
  "norm_dist \<Rightarrow> float64 \<Rightarrow> pynum \<Rightarrow> float64 \<Rightarrow> float64 \<Rightarrow> float64 \<Rightarrow> string \<Rightarrow> float64 \<Rightarrow> nat \<Rightarrow> float64" where
  "estimate P S K T r market_price option_type sigma0 i =
     (newton_step P S K T r market_price option_type ^^ i) sigma0"

definition goes_on ::
  "norm_dist \<Rightarrow> float64 \<Rightarrow> pynum \<Rightarrow> float64 \<Rightarrow> float64 \<Rightarrow> float64 \<Rightarrow> string \<Rightarrow> float64 \<Rightarrow> float64 \<Rightarrow> bool" where
  "goes_on P S K T r market_price option_type tol sigma =
     (vega_at P S K T r sigma \<noteq> Fin 0 \<and> \<not> converged_at P S K T r market_price option_type tol sigma)"

section \<open>The smile curve of the specification\<close>

text \<open>
  The entry of the curve for one strike, with the generator in state \<open>g\<close>: draw the
  volatility samples, average the call prices at these samples into the market price
  of the strike, and solve for the implied volatility; on success the entry is the
  returned volatility, on failure it is the undefined sentinel. The curve takes the
  strikes in order, each with the generator as the draw before it left it.
\<close>

definition smile_point ::
  "norm_dist \<Rightarrow> 'g random_source \<Rightarrow> float64 \<Rightarrow> float64 \<Rightarrow> float64 \<Rightarrow> float64 \<Rightarrow> nat \<Rightarrow>
     float64 \<Rightarrow> 'g \<Rightarrow> float64" where
  "smile_point P rng S T r base_volatility n_simulations K g =
     (let samples = fst (normal rng g base_volatility (Fin 0.05) n_simulations);
          market_price = np_mean (map (price_at P S (NpFloat64 K) T r ''call'') samples)
      in case implied_volatility P S (NpFloat64 K) T r market_price ''call''
                default_tol default_max_iter of
           Inr iv \<Rightarrow> iv
         | Inl e \<Rightarrow> NaN)"

definition next_gen :: "'g random_source \<Rightarrow> float64 \<Rightarrow> nat \<Rightarrow> 'g \<Rightarrow> 'g" where
  "next_gen rng base_volatility n_simulations g =
     snd (normal rng g base_volatility (Fin 0.05) n_simulations)"

fun smile_vols ::
  "norm_dist \<Rightarrow> 'g random_source \<Rightarrow> float64 \<Rightarrow> float64 \<Rightarrow> float64 \<Rightarrow> float64 \<Rightarrow> nat \<Rightarrow>
     float64 list \<Rightarrow> 'g \<Rightarrow> float64 list" where
  "smile_vols P rng S T r base_volatility n_simulations [] g = []"
| "smile_vols P rng S T r base_volatility n_simulations (K # Ks) g =
     smile_point P rng S T r base_volatility n_simulations K g
     # smile_vols P rng S T r base_volatility n_simulations Ks
         (next_gen rng base_volatility n_simulations g)"

section \<open>The standard normal distribution by its properties\<close>

text \<open>
  What makes a pair of functions the standard normal distribution: the density is a
  positive multiple of \<open>exp (- x\<^sup>2 / 2)\<close>, the distribution function has the density
  as its derivative, tends to 0 at minus infinity and to 1 at plus infinity.
\<close>

definition gaussian :: "norm_dist \<Rightarrow> bool" where
  "gaussian P \<longleftrightarrow>
     (\<exists>c>0. \<forall>x. pdf P x = c * exp (- (x\<^sup>2) / 2)) \<and>
     (\<forall>x. (cdf P has_real_derivative pdf P x) (at x)) \<and>
     (cdf P \<longlongrightarrow> 0) at_bot \<and> (cdf P \<longlongrightarrow> 1) at_top"

text \<open>
  The distribution with these properties (lemma \<open>gaussian_unique\<close> shows there is
  one only): \<open>gauss_integral x\<close> is the integral of \<open>exp (- t\<^sup>2 / 2)\<close> from 0 to \<open>x\<close>,
  as a power series; \<open>gauss_total\<close> is its limit at infinity, the least upper bound of
  its values; the normalising constant of the density is \<open>1 / (2 gauss_total)\<close>. That
  \<open>gauss_total\<close> is \<open>sqrt (pi / 2)\<close>, so that \<open>normalised_gauss\<close> is \<open>scipy_norm\<close>, is the
  Gaussian integral, which this theory does not derive (lemma \<open>gaussian_scipy_norm_iff\<close>).
\<close>

definition gauss_coeff :: "nat \<Rightarrow> real" where
  "gauss_coeff k = (- 1 / 2) ^ k / (fact k * real (2 * k + 1))"

definition gauss_integral :: "real \<Rightarrow> real" where
  "gauss_integral x = (\<Sum>n. gauss_term x n)"

definition gauss_total :: real where
  "gauss_total = (SUP x. gauss_integral x)"

definition normalised_gauss :: norm_dist where
  "normalised_gauss =
     \<lparr>cdf = (\<lambda>x. (gauss_total + gauss_integral x) / (2 * gauss_total)),
      pdf = (\<lambda>x. exp (- (x\<^sup>2) / 2) / (2 * gauss_total))\<rparr>"


section \<open>Inputs on which no result leaves the range of a double\<close>

text \<open>
  The formulas of the specification are formulas on the reals. The code computes them
  in doubles, and an intermediate result that overflows or underflows changes the
  value returned. The predicates of this section describe inputs on which that does not
  happen. \<open>mag n x\<close> bounds the magnitude of \<open>x\<close> by \<open>2\<^sup>-\<^sup>n\<close> and \<open>2\<^sup>n\<close>; a real
  \<open>representable\<close> is zero or of a magnitude far inside the range of a double.
\<close>

definition mag :: "nat \<Rightarrow> real \<Rightarrow> bool" where
  "mag n x \<longleftrightarrow> 1 / 2 ^ n \<le> \<bar>x\<bar> \<and> \<bar>x\<bar> \<le> 2 ^ n"

definition magz :: "nat \<Rightarrow> real \<Rightarrow> bool" where
  "magz n x \<longleftrightarrow> x = 0 \<or> mag n x"

definition representable :: "real \<Rightarrow> bool" where
  "representable x \<longleftrightarrow> magz 1000 x"

definition in_range :: "real \<Rightarrow> bool" where
  "in_range x \<longleftrightarrow> 0 < x \<and> mag 100 x"

definition not_tiny :: "real \<Rightarrow> bool" where
  "not_tiny x \<longleftrightarrow> x = 0 \<or> 1 / 2 ^ 100 \<le> \<bar>x\<bar>"

text \<open>
  Inputs of the closed-form pricers: spot, strike, maturity and volatility between
  \<open>2\<^sup>-\<^sup>1\<^sup>0\<^sup>0\<close> and \<open>2\<^sup>1\<^sup>0\<^sup>0\<close>; a rate that is zero or of a magnitude between these bounds,
  with \<open>|r T| \<le> 100\<close>; the drift \<open>r + \<sigma>\<^sup>2/2\<close> and the numerator of \<open>d1\<close> zero or not
  below \<open>2\<^sup>-\<^sup>1\<^sup>0\<^sup>0\<close> in magnitude; and \<open>d1\<close> and \<open>d2\<close> within 20 standard deviations, where
  the distribution function and the density are far above the least double.
\<close>

definition moderate :: "real \<Rightarrow> real \<Rightarrow> real \<Rightarrow> real \<Rightarrow> real \<Rightarrow> bool" where
  "moderate s k t \<rho> v \<longleftrightarrow>
     in_range s \<and> in_range k \<and> in_range t \<and> in_range v \<and> magz 100 \<rho> \<and> \<bar>\<rho> * t\<bar> \<le> 100 \<and>
     not_tiny (\<rho> + v\<^sup>2 / 2) \<and> not_tiny (ln (s / k) + (\<rho> + v\<^sup>2 / 2) * t)"



text \<open>
  Values of the distribution function and of the density that do not underflow.
\<close>

definition cdf_in_range :: "norm_dist \<Rightarrow> real \<Rightarrow> bool" where
  "cdf_in_range P x \<longleftrightarrow> 1 / 2 ^ 500 \<le> cdf P x \<and> cdf P x \<le> 1"


text \<open>
  Inputs of the Monte Carlo pricer with the shocks \<open>Z\<close>: spot, strike, maturity,
  volatility and rate as above; the drift \<open>r - \<sigma>\<^sup>2/2\<close> zero or not below \<open>2\<^sup>-\<^sup>1\<^sup>0\<^sup>0\<close> in
  magnitude; every shock zero or of a magnitude between \<open>2\<^sup>-\<^sup>1\<^sup>0\<^sup>0\<close> and \<open>2\<^sup>1\<^sup>0\<^sup>0\<close>, with an
  exponent of the terminal price of magnitude at most 100; at most \<open>2\<^sup>6\<^sup>4\<close> shocks; and
  a sum of payoffs that is zero or not below \<open>2\<^sup>-\<^sup>1\<^sup>0\<^sup>0\<close>.
\<close>

definition mc_domain :: "real \<Rightarrow> real \<Rightarrow> real \<Rightarrow> real \<Rightarrow> real \<Rightarrow> real list \<Rightarrow> string \<Rightarrow> bool" where
  "mc_domain s k t \<rho> v Z option_type \<longleftrightarrow>
     in_range s \<and> in_range k \<and> in_range t \<and> in_range v \<and> magz 100 \<rho> \<and> \<bar>\<rho> * t\<bar> \<le> 100 \<and>
     not_tiny (\<rho> - v\<^sup>2 / 2) \<and>
     (\<forall>z \<in> set Z. magz 100 z \<and> \<bar>(\<rho> - v\<^sup>2 / 2) * t + v * z * sqrt t\<bar> \<le> 100) \<and>
     length Z \<le> 2 ^ 64 \<and>
     not_tiny (\<Sum>z\<leftarrow>Z. payoff_formula option_type k (terminal_price s t \<rho> v z))"


section \<open>Properties\<close>

subsection \<open>Arithmetic of doubles\<close>

lemma overflow_threshold_gt: "2 ^ 1000 < overflow_threshold"
  by (simp add: overflow_threshold_def)

lemma underflow_threshold_lt: "underflow_threshold < 1 / 2 ^ 1000"
  by (simp add: underflow_threshold_def)

lemma underflow_threshold_pos: "0 < underflow_threshold"
  by (simp add: underflow_threshold_def)

lemma to_inf_Fin: "\<bar>x\<bar> \<le> 2 ^ 1000 \<Longrightarrow> to_inf x = Fin x"
  using overflow_threshold_gt by (auto simp add: to_inf_def)

lemma to_inf_minus: "to_inf (- x) = - to_inf x"
  using overflow_threshold_gt by (auto simp add: to_inf_def)

lemma to_double_minus: "to_double (- x) = - to_double x"
  by (simp add: to_double_def to_inf_minus)

lemma to_double_0: "to_double 0 = Fin 0"
  using underflow_threshold_pos by (simp add: to_double_def)

lemma to_double_Fin: "representable x \<Longrightarrow> to_double x = Fin x"
  using underflow_threshold_lt underflow_threshold_pos
  by (auto simp add: representable_def magz_def mag_def to_double_def to_inf_Fin)

lemma to_double_underflow: "\<bar>x\<bar> \<le> 1 / 2 ^ 1075 \<Longrightarrow> to_double x = Fin 0"
  by (simp add: to_double_def underflow_threshold_def)

lemma to_double_overflow: "2 ^ 1024 \<le> x \<Longrightarrow> to_double x = PosInf"
proof -
  assume x: "2 ^ 1024 \<le> x"
  have "overflow_threshold \<le> 2 ^ 1024" by (simp add: overflow_threshold_def)
  then have o: "overflow_threshold \<le> x" using x by linarith
  have "underflow_threshold < 2 ^ 1024" by (simp add: underflow_threshold_def)
  then have "\<not> \<bar>x\<bar> \<le> underflow_threshold" using x by linarith
  then show ?thesis using o by (simp add: to_double_def to_inf_def)
qed

lemma float64_add_commute: "(x::float64) + y = y + x"
  by (cases x; cases y) (simp_all add: add.commute)

lemma float64_mult_commute: "(x::float64) * y = y * x"
  by (cases x; cases y) (simp_all add: mult.commute)

lemma float64_minus_mult_left: "(- x) * y = - ((x::float64) * y)"
  by (cases x; cases y) (auto simp add: to_double_minus)

lemma times_Fin: "representable (a * b) \<Longrightarrow> Fin a * Fin b = Fin (a * b)"
  by (simp add: to_double_Fin)

lemma divide_Fin: "b \<noteq> 0 \<Longrightarrow> representable (a / b) \<Longrightarrow> Fin a / Fin b = Fin (a / b)"
  by (simp add: to_double_Fin)

lemma plus_Fin: "\<bar>a + b\<bar> \<le> 2 ^ 1000 \<Longrightarrow> Fin a + Fin b = Fin (a + b)"
  by (simp add: to_inf_Fin)

lemma minus_Fin: "\<bar>a - b\<bar> \<le> 2 ^ 1000 \<Longrightarrow> Fin a - Fin b = Fin (a - b)"
  by (simp add: minus_float64_def to_inf_Fin)

lemma truediv_val: "val K = Fin k \<Longrightarrow> k \<noteq> 0 \<Longrightarrow> truediv S K = Inr (S / Fin k)"
  by (cases K) simp_all

lemma truediv_val_eq: "truediv S K = Inr q \<Longrightarrow> q = S / val K"
  by (cases K) (auto split: if_splits)

lemma square_val: "square sigma = Inr sq \<Longrightarrow> sq = val sigma * val sigma"
  by (cases sigma rule: square.cases) (auto split: if_splits)

lemma square_numpy: "square (NpFloat64 x) = Inr (x * x)"
  by simp

lemma square_Fin:
  "val sigma = Fin v \<Longrightarrow> \<bar>v * v\<bar> \<le> 2 ^ 1000 \<Longrightarrow> square sigma = Inr (Fin v * Fin v)"
  using overflow_threshold_gt by (cases sigma) auto

subsection \<open>Magnitudes\<close>

lemma mag_pos: "mag n x \<Longrightarrow> x \<noteq> 0"
proof
  assume m: "mag n x" and x: "x = 0"
  have p: "(0::real) < 2 ^ n" by simp
  from m x have "(2::real) ^ n \<le> 0" by (simp add: mag_def)
  with p show False by linarith
qed

lemma mag_minus: "mag n (- x) = mag n x"
  by (simp add: mag_def)

lemma mag_abs: "mag n \<bar>x\<bar> = mag n x"
  by (simp add: mag_def)

lemma mag_mono: "mag m x \<Longrightarrow> m \<le> n \<Longrightarrow> mag n x"
proof -
  assume a: "mag m x" and mn: "m \<le> n"
  have p: "(2::real) ^ m \<le> 2 ^ n" using mn by simp
  then have "1 / (2::real) ^ n \<le> 1 / 2 ^ m"
    by (simp add: field_simps)
  then show ?thesis using a p unfolding mag_def by linarith
qed

lemma mag_mult: "mag m x \<Longrightarrow> mag n y \<Longrightarrow> mag (m + n) (x * y)"
proof -
  assume x: "mag m x" and y: "mag n y"
  have "\<bar>x\<bar> * \<bar>y\<bar> \<le> 2 ^ m * 2 ^ n"
    by (rule mult_mono) (use x y in \<open>simp_all add: mag_def\<close>)
  moreover have "(1 / 2 ^ m) * (1 / 2 ^ n) \<le> \<bar>x\<bar> * \<bar>y\<bar>"
    by (rule mult_mono) (use x y in \<open>simp_all add: mag_def\<close>)
  ultimately show ?thesis
    by (simp add: mag_def abs_mult power_add)
qed

lemma mag_inverse: "mag n x \<Longrightarrow> mag n (1 / x)"
proof -
  assume x: "mag n x"
  then have p: "0 < \<bar>x\<bar>" using mag_pos [OF x] by simp
  have "1 / \<bar>x\<bar> \<le> 1 / (1 / 2 ^ n)"
    by (rule divide_left_mono) (use x p in \<open>simp_all add: mag_def\<close>)
  moreover have "1 / 2 ^ n \<le> 1 / \<bar>x\<bar>"
    by (rule divide_left_mono) (use x p in \<open>simp_all add: mag_def\<close>)
  ultimately show ?thesis
    by (simp add: mag_def)
qed

lemma mag_divide: "mag m x \<Longrightarrow> mag n y \<Longrightarrow> mag (m + n) (x / y)"
  using mag_mult [of m x n "1 / y"] mag_inverse [of n y] by simp

lemma mag_sqrt: "mag n t \<Longrightarrow> 0 < t \<Longrightarrow> mag n (sqrt t)"
proof -
  assume m: "mag n t" and t: "0 < t"
  have lo: "1 / 2 ^ n \<le> t" and hi: "t \<le> 2 ^ n"
    using m t by (simp_all add: mag_def)
  have one: "(1::real) \<le> 2 ^ n" by simp
  have "sqrt t \<le> 2 ^ n"
  proof (cases "t \<le> 1")
    case True
    then have "sqrt t \<le> 1" by simp
    then show ?thesis using one by linarith
  next
    case False
    then have s1: "1 \<le> sqrt t" by simp
    have "sqrt t * 1 \<le> sqrt t * sqrt t"
      by (rule mult_left_mono) (use s1 in simp_all)
    also have "\<dots> = t" using t by simp
    finally show ?thesis using hi by simp
  qed
  moreover have "1 / 2 ^ n \<le> sqrt t"
  proof (cases "t \<le> 1")
    case True
    have "t = sqrt t * sqrt t" using t by simp
    also have "\<dots> \<le> sqrt t * 1"
      by (rule mult_left_mono) (use True t in simp_all)
    finally show ?thesis using lo by simp
  next
    case False
    then have "1 \<le> sqrt t" by simp
    moreover have "1 / (2::real) ^ n \<le> 1" by simp
    ultimately show ?thesis by linarith
  qed
  ultimately show ?thesis using t by (simp add: mag_def)
qed

lemma exp_le_power: "\<bar>x\<bar> \<le> real n \<Longrightarrow> exp x \<le> 4 ^ n"
proof -
  assume "\<bar>x\<bar> \<le> real n"
  then have "exp x \<le> exp (real n * 1)" by simp
  also have "\<dots> = exp 1 ^ n" by (rule exp_of_nat_mult)
  also have "\<dots> \<le> 4 ^ n"
    by (rule power_mono) (use exp_le in simp_all)
  finally show ?thesis .
qed

lemma mag_exp: "\<bar>x\<bar> \<le> 100 \<Longrightarrow> mag 200 (exp x)"
proof -
  assume x: "\<bar>x\<bar> \<le> 100"
  have four: "(4::real) ^ 100 = 2 ^ 200" by simp
  have hi: "exp x \<le> 2 ^ 200"
    using exp_le_power [of x 100] x four by simp
  have e: "exp (- x) \<le> 2 ^ 200"
    using exp_le_power [of "- x" 100] x four by simp
  have "1 = exp x * exp (- x)" by (simp add: exp_minus_inverse)
  also have "\<dots> \<le> exp x * 2 ^ 200"
    by (rule mult_left_mono [OF e]) simp
  finally have lo: "1 / 2 ^ 200 \<le> exp x"
    by (simp add: field_simps)
  show ?thesis using lo hi by (simp add: mag_def)
qed

lemma representable_mag: "mag n x \<Longrightarrow> n \<le> 1000 \<Longrightarrow> representable x"
  using mag_mono [of n x 1000] by (simp add: representable_def magz_def)

lemma representable_0: "representable 0"
  by (simp add: representable_def magz_def)

lemma mag_abs_le: "mag n x \<Longrightarrow> \<bar>x\<bar> \<le> 2 ^ n"
  by (simp add: mag_def)

lemma in_range_mag: "in_range x \<Longrightarrow> mag 100 x"
  by (simp add: in_range_def)

lemma in_range_pos: "in_range x \<Longrightarrow> 0 < x"
  by (simp add: in_range_def)

lemma ln_abs_le:
  fixes x :: real
  assumes "0 < x" "mag n x"
  shows "\<bar>ln x\<bar> \<le> 2 ^ n"
proof -
  have hi: "ln x \<le> 2 ^ n"
    using ln_le_minus_one [OF assms(1)] assms by (simp add: mag_def)
  have "0 < 1 / x" using assms(1) by simp
  from ln_le_minus_one [OF this] have "- ln x \<le> 1 / x - 1"
    using assms(1) by (simp add: ln_div)
  moreover have "1 / x \<le> 2 ^ n"
    using mag_inverse [OF assms(2)] assms(1) by (simp add: mag_def)
  ultimately show ?thesis using hi by linarith
qed


subsection \<open>The series of the distribution function\<close>

lemma gauss_term_abs_le: "\<bar>gauss_term x n\<bar> \<le> \<bar>x\<bar> * ((x\<^sup>2 / 2) ^ n / fact n)"
proof -
  have "\<bar>gauss_term x n\<bar> = \<bar>x\<bar> * ((x\<^sup>2 / 2) ^ n / fact n) / real (2 * n + 1)"
    by (simp add: gauss_term_def abs_mult power_abs power_mult power_divide)
  also have "\<dots> \<le> \<bar>x\<bar> * ((x\<^sup>2 / 2) ^ n / fact n) / 1"
    by (rule divide_left_mono) (simp_all add: zero_le_mult_iff)
  finally show ?thesis by simp
qed

lemma exp_series_summable: "summable (\<lambda>n. \<bar>x\<bar> * ((y::real) ^ n / fact n))"
  using summable_mult [OF summable_exp_generic [of y], of "\<bar>x\<bar>"]
  by (simp add: field_simps)

lemma gauss_term_summable: "summable (gauss_term x)"
proof (rule summable_rabs_cancel, rule summable_comparison_test')
  show "summable (\<lambda>n. \<bar>x\<bar> * ((x\<^sup>2 / 2) ^ n / fact n))"
    by (rule exp_series_summable)
  show "\<And>n. n \<ge> 0 \<Longrightarrow> norm \<bar>gauss_term x n\<bar> \<le> \<bar>x\<bar> * ((x\<^sup>2 / 2) ^ n / fact n)"
    using gauss_term_abs_le by simp
qed

lemma gauss_term_minus: "gauss_term (- x) n = - gauss_term x n"
  by (simp add: gauss_term_def)

lemma std_norm_cdf_symmetric: "std_norm_cdf x + std_norm_cdf (- x) = 1"
proof -
  have "(\<Sum>n. gauss_term (- x) n) = - (\<Sum>n. gauss_term x n)"
    unfolding gauss_term_minus by (rule suminf_minus [OF gauss_term_summable])
  then show ?thesis by (simp add: std_norm_cdf_def)
qed

lemma gauss_sum_abs_le: "\<bar>\<Sum>n. gauss_term x n\<bar> \<le> \<bar>x\<bar> * exp (x\<^sup>2 / 2)"
proof -
  have abs_summable: "summable (\<lambda>n. \<bar>gauss_term x n\<bar>)"
    by (rule summable_rabs_comparison_test [OF _ exp_series_summable])
       (use gauss_term_abs_le in auto)
  have "\<bar>\<Sum>n. gauss_term x n\<bar> \<le> (\<Sum>n. \<bar>gauss_term x n\<bar>)"
    by (rule summable_rabs [OF abs_summable])
  also have "\<dots> \<le> (\<Sum>n. \<bar>x\<bar> * ((x\<^sup>2 / 2) ^ n / fact n))"
    by (rule suminf_le [OF _ abs_summable exp_series_summable]) (rule gauss_term_abs_le)
  also have "\<dots> = \<bar>x\<bar> * (\<Sum>n. (x\<^sup>2 / 2) ^ n / fact n)"
    by (rule suminf_mult) (use summable_exp_generic [of "x\<^sup>2 / 2"] in \<open>simp add: field_simps\<close>)
  also have "(\<Sum>n. (x\<^sup>2 / 2) ^ n / fact n) = exp (x\<^sup>2 / 2)"
    by (simp add: exp_def field_simps)
  finally show ?thesis .
qed

subsection \<open>Bounds of the distribution function of scipy\<close>

lemma std_norm_cdf_abs_le: "\<bar>std_norm_cdf x\<bar> \<le> 1 / 2 + \<bar>x\<bar> * exp (x\<^sup>2 / 2)"
proof -
  have "1 \<le> 2 * pi" using pi_ge_two by simp
  then have s: "1 \<le> sqrt (2 * pi)" by simp
  have "\<bar>(\<Sum>n. gauss_term x n) / sqrt (2 * pi)\<bar> = \<bar>\<Sum>n. gauss_term x n\<bar> / sqrt (2 * pi)"
    by simp
  also have "\<dots> \<le> \<bar>\<Sum>n. gauss_term x n\<bar> / 1"
    by (rule divide_left_mono) (use s in simp_all)
  also have "\<dots> \<le> \<bar>x\<bar> * exp (x\<^sup>2 / 2)"
    using gauss_sum_abs_le [of x] by simp
  finally show ?thesis
    unfolding std_norm_cdf_def by linarith
qed

lemma std_norm_cdf_small: 
  assumes "\<bar>x\<bar> \<le> 1 / 2"
  shows "\<bar>std_norm_cdf x\<bar> \<le> 3 / 2"
proof -
  have "x\<^sup>2 \<le> (1 / 2)\<^sup>2"
    using assms by (metis abs_ge_zero abs_power2 power_mono power2_abs)
  then have x2: "x\<^sup>2 / 2 \<le> 1 / 8" by (simp add: power2_eq_square)
  have "exp (x\<^sup>2 / 2) \<le> exp (1 / 8 :: real)" using x2 by simp
  also have "\<dots> \<le> 1 + 1 / 8 + (1 / 8)\<^sup>2" by (rule exp_bound) simp_all
  finally have e: "exp (x\<^sup>2 / 2) \<le> 2" by (simp add: power2_eq_square)
  have "\<bar>x\<bar> * exp (x\<^sup>2 / 2) \<le> (1 / 2) * 2"
    by (rule mult_mono) (use assms e in simp_all)
  then show ?thesis using std_norm_cdf_abs_le [of x] by linarith
qed

subsection \<open>Symmetry gives parity on the reals\<close>


lemma scipy_norm_symmetric: "\<forall>x. cdf scipy_norm x + cdf scipy_norm (- x) = 1"
  by (simp add: scipy_norm_def std_norm_cdf_symmetric)

subsection \<open>Properties of the standard normal distribution\<close>

lemma gaussian_pdf_pos: "gaussian P \<Longrightarrow> 0 < pdf P x"
  by (auto simp add: gaussian_def)

lemma gaussian_cdf_mono:
  assumes "gaussian P" "x \<le> y"
  shows "cdf P x \<le> cdf P y"
proof (rule DERIV_nonneg_imp_nondecreasing [OF assms(2)])
  fix z
  show "\<exists>d. (cdf P has_real_derivative d) (at z) \<and> 0 \<le> d"
    using assms(1) gaussian_pdf_pos [OF assms(1), of z]
    by (intro exI [of _ "pdf P z"]) (simp add: gaussian_def)
qed

lemma gaussian_small_at_bot:
  assumes "gaussian P" "0 < e"
  shows "\<exists>y\<le>x. \<bar>cdf P y\<bar> < e"
proof -
  have "(cdf P \<longlongrightarrow> 0) at_bot" using assms(1) by (simp add: gaussian_def)
  then have "eventually (\<lambda>y. dist (cdf P y) 0 < e) at_bot"
    using assms(2) by (rule tendstoD)
  then obtain N where N: "\<forall>y\<le>N. dist (cdf P y) 0 < e"
    unfolding eventually_at_bot_linorder by blast
  then have "\<bar>cdf P (min x N)\<bar> < e" by simp
  then show ?thesis by (intro exI [of _ "min x N"]) simp
qed

lemma gaussian_cdf_nonneg:
  assumes "gaussian P"
  shows "0 \<le> cdf P x"
proof (rule ccontr)
  assume "\<not> 0 \<le> cdf P x"
  then have neg: "0 < - cdf P x" by simp
  from gaussian_small_at_bot [OF assms neg, of x]
  obtain y where y: "y \<le> x" "\<bar>cdf P y\<bar> < - cdf P x" by blast
  from gaussian_cdf_mono [OF assms y(1)] y(2) show False by linarith
qed

lemma gaussian_mills:
  assumes P: "gaussian P" and x: "x < 0"
  shows "(- x) * cdf P x \<le> pdf P x"
proof -
  obtain c where c: "0 < c" "\<And>y. pdf P y = c * exp (- (y\<^sup>2) / 2)"
    using P by (auto simp add: gaussian_def)
  have d: "(cdf P has_real_derivative c * exp (- (y\<^sup>2) / 2)) (at y)" for y
    using P c(2) by (simp add: gaussian_def)
  define u where "u y = c * exp (- (y\<^sup>2) / 2) / (- y) - cdf P y" for y
  have du: "\<exists>e. (u has_real_derivative e) (at y) \<and> 0 \<le> e" if "y < 0" for y
  proof -
    have "(u has_real_derivative c * exp (- (y\<^sup>2) / 2) / y\<^sup>2) (at y)"
      unfolding u_def
      by (rule derivative_eq_intros d refl | use that in \<open>simp; fail\<close>)+
         (use that in \<open>simp add: field_simps power2_eq_square\<close>)
    moreover have "0 \<le> c * exp (- (y\<^sup>2) / 2) / y\<^sup>2"
      using c(1) by simp
    ultimately show ?thesis by blast
  qed
  have "- e < u x" if e: "0 < e" for e
  proof -
    from gaussian_small_at_bot [OF P e, of x]
    obtain y where y: "y \<le> x" "\<bar>cdf P y\<bar> < e" by blast
    have "u y \<le> u x"
      by (rule DERIV_nonneg_imp_nondecreasing [OF y(1)]) (use x du in auto)
    moreover have "0 < c * exp (- (y\<^sup>2) / 2) / (- y)"
      by (intro divide_pos_pos mult_pos_pos) (use c(1) y(1) x in simp_all)
    ultimately show ?thesis using y(2) unfolding u_def by linarith
  qed
  from this [of "- u x"] have "0 \<le> u x"
    by (cases "0 \<le> u x") simp_all
  then have "cdf P x \<le> c * exp (- (x\<^sup>2) / 2) / (- x)"
    by (simp add: u_def)
  then show ?thesis
    using x by (simp add: c(2) field_simps)
qed

lemma gaussian_pdf_plus:
  assumes "gaussian P"
  shows "0 \<le> pdf P x + x * cdf P x"
proof (cases "x < 0")
  case True
  from gaussian_mills [OF assms True] show ?thesis by simp
next
  case False
  then have "0 \<le> x * cdf P x"
    using gaussian_cdf_nonneg [OF assms, of x] by simp
  then show ?thesis
    using gaussian_pdf_pos [OF assms, of x] by linarith
qed

lemma gaussian_shift:
  assumes P: "gaussian P" and w: "0 \<le> w"
  shows "exp (- x * w - w\<^sup>2 / 2) * cdf P x \<le> cdf P (x + w)"
proof -
  obtain c where c: "0 < c" "\<And>y. pdf P y = c * exp (- (y\<^sup>2) / 2)"
    using P by (auto simp add: gaussian_def)
  have d: "(cdf P has_real_derivative pdf P y) (at y)" for y
    using P by (simp add: gaussian_def)
  define k where "k z = cdf P (x + z) - exp (- x * z - z\<^sup>2 / 2) * cdf P x" for z
  have dk: "\<exists>e. (k has_real_derivative e) (at z) \<and> 0 \<le> e" if z: "0 \<le> z" for z
  proof -
    have shift: "((\<lambda>z. cdf P (x + z)) has_real_derivative pdf P (x + z) * 1) (at z)"
      by (rule DERIV_chain2 [OF d]) (rule derivative_eq_intros refl | simp)+
    have "(k has_real_derivative
             pdf P (x + z) * 1 - exp (- x * z - z\<^sup>2 / 2) * (- x - z) * cdf P x) (at z)"
      unfolding k_def
      by (rule derivative_eq_intros shift refl | simp)+
    moreover have "pdf P (x + z) = exp (- x * z - z\<^sup>2 / 2) * pdf P x"
    proof -
      have "- ((x + z)\<^sup>2) / 2 = (- x * z - z\<^sup>2 / 2) + (- (x\<^sup>2) / 2)"
        by (simp add: power2_eq_square field_simps)
      then show ?thesis
        by (simp only: c(2) exp_add) simp
    qed
    moreover have "0 \<le> exp (- x * z - z\<^sup>2 / 2) * (pdf P x + x * cdf P x + z * cdf P x)"
    proof (rule mult_nonneg_nonneg)
      have "0 \<le> z * cdf P x"
        using gaussian_cdf_nonneg [OF P, of x] z by simp
      then show "0 \<le> pdf P x + x * cdf P x + z * cdf P x"
        using gaussian_pdf_plus [OF P, of x] by linarith
    qed simp
    ultimately show ?thesis
      by (intro exI [of _ "pdf P (x + z) * 1 - exp (- x * z - z\<^sup>2 / 2) * (- x - z) * cdf P x"])
         (simp add: algebra_simps)
  qed
  have "k 0 \<le> k w"
    by (rule DERIV_nonneg_imp_nondecreasing [OF w]) (use dk in auto)
  then show ?thesis by (simp add: k_def)
qed

lemma d1_times_width:
  assumes "0 < t" "0 < v"
  shows "d1_formula s k t \<rho> v * (v * sqrt t) - (v * sqrt t)\<^sup>2 / 2 = ln (s / k) + \<rho> * t"
proof -
  have "v * sqrt t \<noteq> 0" using assms by simp
  then have a: "d1_formula s k t \<rho> v * (v * sqrt t) = ln (s / k) + (\<rho> + v\<^sup>2 / 2) * t"
    by (simp add: d1_formula_def)
  have "(sqrt t)\<^sup>2 = t" using assms by simp
  then have b: "(v * sqrt t)\<^sup>2 = v\<^sup>2 * t"
    by (simp only: power_mult_distrib)
  show ?thesis
    unfolding a b by (simp add: algebra_simps)
qed

lemma forward_ratio:
  fixes s k \<rho> t :: real
  assumes "0 < s" "0 < k"
  shows "exp (ln (s / k) + \<rho> * t) * (k * exp (- (\<rho> * t))) = s"
proof -
  have "0 < s / k" using assms by simp
  then have "exp (ln (s / k)) = s / k" by simp
  then have "exp (ln (s / k) + \<rho> * t) * (k * exp (- (\<rho> * t)))
             = s / k * k * (exp (\<rho> * t) * exp (- (\<rho> * t)))"
    by (simp add: exp_add)
  also have "\<dots> = s"
    using assms by (simp only: exp_minus_inverse) simp
  finally show ?thesis .
qed

lemma call_formula_nonneg:
  assumes P: "gaussian P" and pos: "0 < s" "0 < k" "0 < t" "0 < v"
  shows "0 \<le> call_formula P s k t \<rho> v"
proof -
  define w where "w = v * sqrt t"
  define d2 where "d2 = d2_formula s k t \<rho> v"
  define X where "X = ln (s / k) + \<rho> * t"
  define D where "D = k * exp (- (\<rho> * t))"
  have w: "0 \<le> w" using pos by (simp add: w_def)
  have d1: "d1_formula s k t \<rho> v = d2 + w"
    by (simp add: d2_def d2_formula_def w_def)
  have "(d2 + w) * w - w\<^sup>2 / 2 = X"
    using d1_times_width [OF pos(3,4), of s k \<rho>] unfolding d1 w_def X_def .
  then have e: "- d2 * w - w\<^sup>2 / 2 = - X"
    by (simp add: power2_eq_square algebra_simps)
  have shift: "exp (- X) * cdf P d2 \<le> cdf P (d2 + w)"
    using gaussian_shift [OF P w, of d2] unfolding e .
  have ratio: "exp X * D = s"
    using forward_ratio [OF pos(1,2), of \<rho> t] by (simp add: X_def D_def)
  have "exp X * exp (- X) = 1" by (rule exp_minus_inverse)
  then have "D = s * exp (- X)"
    using ratio by (metis mult.assoc mult.commute mult.right_neutral)
  moreover have "s * exp (- X) * cdf P d2 \<le> s * cdf P (d2 + w)"
    using shift pos(1) by (simp add: mult.assoc)
  ultimately have "D * cdf P d2 \<le> s * cdf P (d2 + w)" by simp
  then show ?thesis
    by (simp add: call_formula_def d1 d2_def [symmetric] D_def)
qed

lemma put_formula_nonneg:
  assumes P: "gaussian P" and pos: "0 < s" "0 < k" "0 < t" "0 < v"
  shows "0 \<le> put_formula P s k t \<rho> v"
proof -
  define w where "w = v * sqrt t"
  define d1 where "d1 = d1_formula s k t \<rho> v"
  define X where "X = ln (s / k) + \<rho> * t"
  define D where "D = k * exp (- (\<rho> * t))"
  have w: "0 \<le> w" using pos by (simp add: w_def)
  have D: "0 \<le> D" using pos by (simp add: D_def)
  have d2: "- d2_formula s k t \<rho> v = - d1 + w"
    by (simp add: d1_def d2_formula_def w_def)
  have "d1 * w - w\<^sup>2 / 2 = X"
    using d1_times_width [OF pos(3,4), of s k \<rho>] unfolding d1_def w_def X_def .
  then have e: "- (- d1) * w - w\<^sup>2 / 2 = X"
    by simp
  have shift: "exp X * cdf P (- d1) \<le> cdf P (- d1 + w)"
    using gaussian_shift [OF P w, of "- d1"] unfolding e .
  have ratio: "exp X * D = s"
    using forward_ratio [OF pos(1,2), of \<rho> t] by (simp add: X_def D_def)
  have "D * (exp X * cdf P (- d1)) \<le> D * cdf P (- d1 + w)"
    by (rule mult_left_mono [OF shift D])
  moreover have "D * (exp X * cdf P (- d1)) = s * cdf P (- d1)"
    using ratio by (metis mult.assoc mult.commute)
  ultimately have "s * cdf P (- d1) \<le> D * cdf P (- d1 + w)" by simp
  then show ?thesis
    by (simp add: put_formula_def d2 d1_def [symmetric] D_def)
qed

subsection \<open>The series of the Gaussian integral\<close>

lemma gauss_term_coeff: "gauss_term x k = x * (gauss_coeff k * (x\<^sup>2) ^ k)"
  by (simp add: gauss_term_def gauss_coeff_def power_mult [symmetric] power_divide
      power_minus' field_simps)

lemma gauss_coeff_abs_le: "\<bar>gauss_coeff k * y ^ k\<bar> \<le> (\<bar>y\<bar> / 2) ^ k / fact k"
proof -
  have "\<bar>gauss_coeff k * y ^ k\<bar> = (\<bar>y\<bar> / 2) ^ k / fact k / real (2 * k + 1)"
    by (simp add: gauss_coeff_def abs_mult power_abs power_divide)
  also have "\<dots> \<le> (\<bar>y\<bar> / 2) ^ k / fact k / 1"
    by (rule divide_left_mono) simp_all
  finally show ?thesis by simp
qed

lemma gauss_coeff_summable: "summable (\<lambda>k. gauss_coeff k * y ^ k)"
proof (rule summable_rabs_cancel, rule summable_comparison_test')
  show "summable (\<lambda>k. (\<bar>y\<bar> / 2) ^ k / fact k)"
    using summable_exp_generic [of "\<bar>y\<bar> / 2"] by (simp add: field_simps)
  show "\<And>k. k \<ge> 0 \<Longrightarrow> norm \<bar>gauss_coeff k * y ^ k\<bar> \<le> (\<bar>y\<bar> / 2) ^ k / fact k"
    using gauss_coeff_abs_le by simp
qed

lemma gauss_coeff_odd: "real (2 * k + 1) * gauss_coeff k * y ^ k = (- y / 2) ^ k /\<^sub>R fact k"
proof -
  have b: "(- 1 / 2) ^ k * y ^ k = (- y / 2) ^ k"
    by (simp add: power_mult_distrib [symmetric])
  have a: "real (2 * k + 1) * gauss_coeff k = (- 1 / 2) ^ k / fact k"
    unfolding gauss_coeff_def by simp
  have "real (2 * k + 1) * gauss_coeff k * y ^ k = (- 1 / 2) ^ k / fact k * y ^ k"
    by (simp only: a)
  also have "\<dots> = ((- 1 / 2) ^ k * y ^ k) / fact k"
    by (simp only: times_divide_eq_left)
  also have "\<dots> = (- y / 2) ^ k / fact k"
    by (simp only: b)
  also have "\<dots> = (- y / 2) ^ k /\<^sub>R fact k"
    by (simp only: real_scaleR_def divide_inverse mult.commute)
  finally show ?thesis .
qed

lemma gauss_series_ode:
  "(\<Sum>k. gauss_coeff k * y ^ k) + 2 * y * (\<Sum>k. diffs gauss_coeff k * y ^ k) = exp (- y / 2)"
proof -
  define g where "g k = 2 * real k * gauss_coeff k * y ^ k" for k
  have s1: "(\<lambda>k. gauss_coeff k * y ^ k) sums (\<Sum>k. gauss_coeff k * y ^ k)"
    by (rule summable_sums [OF gauss_coeff_summable])
  have "summable (\<lambda>k. diffs gauss_coeff k * y ^ k)"
    by (rule termdiff_converges_all) (rule gauss_coeff_summable)
  then have "(\<lambda>k. diffs gauss_coeff k * y ^ k) sums (\<Sum>k. diffs gauss_coeff k * y ^ k)"
    by (rule summable_sums)
  then have "(\<lambda>k. 2 * y * (diffs gauss_coeff k * y ^ k))
               sums (2 * y * (\<Sum>k. diffs gauss_coeff k * y ^ k))"
    by (rule sums_mult)
  moreover have "2 * y * (diffs gauss_coeff k * y ^ k) = g (Suc k)" for k
    by (simp add: diffs_def g_def)
  ultimately have "(\<lambda>k. g (Suc k)) sums (2 * y * (\<Sum>k. diffs gauss_coeff k * y ^ k))"
    by simp
  moreover have "g 0 = 0" by (simp add: g_def)
  ultimately have s2: "g sums (2 * y * (\<Sum>k. diffs gauss_coeff k * y ^ k))"
    by (rule sums_Suc_imp [rotated])
  have "(\<lambda>k. gauss_coeff k * y ^ k + g k)
          sums ((\<Sum>k. gauss_coeff k * y ^ k) + 2 * y * (\<Sum>k. diffs gauss_coeff k * y ^ k))"
    by (rule sums_add [OF s1 s2])
  moreover have "gauss_coeff k * y ^ k + g k = (- y / 2) ^ k /\<^sub>R fact k" for k
    using gauss_coeff_odd [of k y] by (simp add: g_def algebra_simps)
  ultimately have "(\<lambda>k. (- y / 2) ^ k /\<^sub>R fact k)
          sums ((\<Sum>k. gauss_coeff k * y ^ k) + 2 * y * (\<Sum>k. diffs gauss_coeff k * y ^ k))"
    by simp
  then show ?thesis
    using exp_converges [of "- y / 2"] by (rule sums_unique2)
qed

lemma gauss_integral_eq: "gauss_integral x = x * (\<Sum>k. gauss_coeff k * (x\<^sup>2) ^ k)"
  unfolding gauss_integral_def gauss_term_coeff
  by (rule suminf_mult [OF gauss_coeff_summable])

lemma gauss_integral_deriv:
  "(gauss_integral has_real_derivative exp (- (x\<^sup>2) / 2)) (at x)"
proof -
  have B: "((\<lambda>y. \<Sum>k. gauss_coeff k * y ^ k) has_real_derivative
             (\<Sum>k. diffs gauss_coeff k * y ^ k)) (at y)" for y
    by (rule termdiffs_strong_converges_everywhere) (rule gauss_coeff_summable)
  have sq: "((\<lambda>x. x\<^sup>2) has_real_derivative 2 * x) (at x)"
    by (rule derivative_eq_intros refl | simp)+
  have comp: "((\<lambda>x. \<Sum>k. gauss_coeff k * (x\<^sup>2) ^ k) has_real_derivative
                 (\<Sum>k. diffs gauss_coeff k * (x\<^sup>2) ^ k) * (2 * x)) (at x)"
    by (rule DERIV_chain2 [OF B sq])
  have "((\<lambda>x. x * (\<Sum>k. gauss_coeff k * (x\<^sup>2) ^ k)) has_real_derivative
          x * ((\<Sum>k. diffs gauss_coeff k * (x\<^sup>2) ^ k) * (2 * x))
          + 1 * (\<Sum>k. gauss_coeff k * (x\<^sup>2) ^ k)) (at x)"
    by (rule DERIV_mult' [OF DERIV_ident comp])
  moreover have "x * ((\<Sum>k. diffs gauss_coeff k * (x\<^sup>2) ^ k) * (2 * x))
                 + 1 * (\<Sum>k. gauss_coeff k * (x\<^sup>2) ^ k)
                 = exp (- (x\<^sup>2) / 2)"
    using gauss_series_ode [of "x\<^sup>2"] by (simp add: power2_eq_square algebra_simps)
  moreover have "gauss_integral = (\<lambda>x. x * (\<Sum>k. gauss_coeff k * (x\<^sup>2) ^ k))"
    by (rule ext) (rule gauss_integral_eq)
  ultimately show ?thesis by simp
qed

lemma gauss_integral_0: "gauss_integral 0 = 0"
  by (simp add: gauss_integral_eq)

lemma gauss_integral_minus: "gauss_integral (- x) = - gauss_integral x"
  by (simp add: gauss_integral_eq)

lemma gauss_integral_strict_mono:
  assumes "x < y"
  shows "gauss_integral x < gauss_integral y"
proof (rule DERIV_pos_imp_increasing [OF assms])
  fix z
  show "\<exists>d. (gauss_integral has_real_derivative d) (at z) \<and> 0 < d"
    using gauss_integral_deriv [of z] by (intro exI [of _ "exp (- (z\<^sup>2) / 2)"]) simp
qed

lemma gauss_integral_le: "gauss_integral x \<le> exp (1 / 2)"
proof (cases "0 \<le> x")
  case True
  define h where "h z = gauss_integral z + exp (1 / 2 - z)" for z
  have dh: "\<exists>d. (h has_real_derivative d) (at z) \<and> d \<le> 0" for z
  proof -
    have "(h has_real_derivative exp (- (z\<^sup>2) / 2) + exp (1 / 2 - z) * (0 - 1)) (at z)"
      unfolding h_def
      by (rule derivative_eq_intros gauss_integral_deriv refl | simp)+
    moreover have "- (z\<^sup>2) / 2 \<le> 1 / 2 - z"
      using zero_le_power2 [of "z - 1"] by (simp add: power2_eq_square algebra_simps)
    then have "exp (- (z\<^sup>2) / 2) \<le> exp (1 / 2 - z)"
      by simp
    ultimately show ?thesis
      by (intro exI [of _ "exp (- (z\<^sup>2) / 2) + exp (1 / 2 - z) * (0 - 1)"]) simp
  qed
  have "h x \<le> h 0"
    by (rule DERIV_nonpos_imp_nonincreasing [OF True]) (use dh in auto)
  moreover have "h 0 = exp (1 / 2)"
    by (simp add: h_def gauss_integral_0)
  moreover have "h x = gauss_integral x + exp (1 / 2 - x)"
    by (simp add: h_def)
  ultimately show ?thesis
    using exp_gt_zero [of "1 / 2 - x"] by linarith
next
  case False
  then have "gauss_integral x < gauss_integral 0"
    by (intro gauss_integral_strict_mono) simp
  then show ?thesis
    unfolding gauss_integral_0 using exp_gt_zero [of "1 / 2 :: real"] by linarith
qed

lemma gauss_integral_bdd: "bdd_above (range gauss_integral)"
  by (rule bdd_aboveI [of _ "exp (1 / 2)"]) (auto simp add: gauss_integral_le)

lemma gauss_integral_le_total: "gauss_integral x \<le> gauss_total"
  unfolding gauss_total_def by (rule cSUP_upper [OF UNIV_I gauss_integral_bdd])

lemma gauss_total_pos: "0 < gauss_total"
  using gauss_integral_strict_mono [of 0 1] gauss_integral_le_total [of 1]
  by (simp add: gauss_integral_0)

lemma gauss_integral_near_total:
  assumes "0 < e"
  shows "\<exists>x0. \<forall>x\<ge>x0. gauss_total - e < gauss_integral x"
proof -
  have "gauss_total - e < gauss_total" using assms by simp
  then obtain x0 where x0: "gauss_total - e < gauss_integral x0"
    unfolding gauss_total_def
    using less_cSUP_iff [OF _ gauss_integral_bdd, of "(SUP x. gauss_integral x) - e"] by auto
  have "gauss_total - e < gauss_integral x" if "x0 \<le> x" for x
  proof (cases "x0 = x")
    case True
    then show ?thesis using x0 by simp
  next
    case False
    then have "gauss_integral x0 < gauss_integral x"
      using that by (intro gauss_integral_strict_mono) simp
    then show ?thesis using x0 by simp
  qed
  then show ?thesis by blast
qed

lemma gauss_integral_at_top: "(gauss_integral \<longlongrightarrow> gauss_total) at_top"
proof (rule tendstoI)
  fix e :: real
  assume e: "0 < e"
  from gauss_integral_near_total [OF e] obtain x0
    where x0: "\<forall>x\<ge>x0. gauss_total - e < gauss_integral x" by blast
  have "dist (gauss_integral x) gauss_total < e" if "x0 \<le> x" for x
    using x0 that gauss_integral_le_total [of x] by (auto simp add: dist_real_def)
  then show "eventually (\<lambda>x. dist (gauss_integral x) gauss_total < e) at_top"
    unfolding eventually_at_top_linorder by blast
qed

lemma gauss_integral_at_bot: "(gauss_integral \<longlongrightarrow> - gauss_total) at_bot"
proof (rule tendstoI)
  fix e :: real
  assume e: "0 < e"
  from gauss_integral_near_total [OF e] obtain x0
    where x0: "\<forall>x\<ge>x0. gauss_total - e < gauss_integral x" by blast
  have "dist (gauss_integral x) (- gauss_total) < e" if "x \<le> - x0" for x
  proof -
    have "gauss_total - e < gauss_integral (- x)" using x0 that by simp
    then show ?thesis
      using gauss_integral_le_total [of "- x"]
      by (simp add: gauss_integral_minus dist_real_def)
  qed
  then show "eventually (\<lambda>x. dist (gauss_integral x) (- gauss_total) < e) at_bot"
    unfolding eventually_at_bot_linorder by blast
qed

lemma gaussian_normalised_gauss: "gaussian normalised_gauss"
proof -
  have c: "\<exists>c>0. \<forall>x. pdf normalised_gauss x = c * exp (- (x\<^sup>2) / 2)"
    using gauss_total_pos
    by (intro exI [of _ "1 / (2 * gauss_total)"]) (simp add: normalised_gauss_def)
  have d: "(cdf normalised_gauss has_real_derivative pdf normalised_gauss x) (at x)" for x
  proof -
    have "((\<lambda>x. (gauss_total + gauss_integral x) / (2 * gauss_total)) has_real_derivative
            (0 + exp (- (x\<^sup>2) / 2)) / (2 * gauss_total)) (at x)"
      by (rule DERIV_cdivide, rule DERIV_add [OF DERIV_const gauss_integral_deriv])
    then show ?thesis
      by (simp add: normalised_gauss_def)
  qed
  have "((\<lambda>x. (gauss_total + gauss_integral x) / (2 * gauss_total))
          \<longlongrightarrow> (gauss_total + - gauss_total) / (2 * gauss_total)) at_bot"
    by (intro tendsto_intros gauss_integral_at_bot) (use gauss_total_pos in simp)
  then have b: "(cdf normalised_gauss \<longlongrightarrow> 0) at_bot"
    by (simp add: normalised_gauss_def)
  have "((\<lambda>x. (gauss_total + gauss_integral x) / (2 * gauss_total))
          \<longlongrightarrow> (gauss_total + gauss_total) / (2 * gauss_total)) at_top"
    by (intro tendsto_intros gauss_integral_at_top) (use gauss_total_pos in simp)
  then have t: "(cdf normalised_gauss \<longlongrightarrow> 1) at_top"
    using gauss_total_pos by (simp add: normalised_gauss_def)
  show ?thesis
    unfolding gaussian_def using c d b t by blast
qed

lemma gaussian_unique:
  assumes P: "gaussian P"
  shows "cdf P = cdf normalised_gauss" and "pdf P = pdf normalised_gauss"
proof -
  obtain c where c: "0 < c" "\<And>y. pdf P y = c * exp (- (y\<^sup>2) / 2)"
    using P by (auto simp add: gaussian_def)
  have d: "(cdf P has_real_derivative c * exp (- (y\<^sup>2) / 2)) (at y)" for y
    using P c(2) by (simp add: gaussian_def)
  define f where "f y = cdf P y - c * gauss_integral y" for y
  have f: "f = (\<lambda>y. cdf P y - c * gauss_integral y)"
    by (rule ext) (simp only: f_def)
  have "(f has_real_derivative 0) (at y)" for y
  proof -
    have "((\<lambda>y. cdf P y - c * gauss_integral y) has_real_derivative
            c * exp (- (y\<^sup>2) / 2) - c * exp (- (y\<^sup>2) / 2)) (at y)"
      by (rule DERIV_diff [OF d DERIV_cmult [OF gauss_integral_deriv]])
    then show ?thesis
      by (simp only: f diff_self)
  qed
  then have const: "f y = f 0" for y
    using DERIV_isconst_all [of f y 0] by blast
  define a where "a = cdf P 0"
  have eq: "cdf P y = a + c * gauss_integral y" for y
    using const [of y] unfolding f_def gauss_integral_0 a_def by linarith
  have cdfP: "cdf P = (\<lambda>y. a + c * gauss_integral y)"
    by (rule ext) (rule eq)
  have "((\<lambda>y. a + c * gauss_integral y) \<longlongrightarrow> a + c * (- gauss_total)) at_bot"
    by (intro tendsto_intros gauss_integral_at_bot)
  then have "(cdf P \<longlongrightarrow> a + c * (- gauss_total)) at_bot"
    by (simp only: cdfP)
  moreover have "(cdf P \<longlongrightarrow> 0) at_bot"
    using P by (simp add: gaussian_def)
  ultimately have bot: "a + c * (- gauss_total) = 0"
    by (rule tendsto_unique [OF trivial_limit_at_bot_linorder])
  have "((\<lambda>y. a + c * gauss_integral y) \<longlongrightarrow> a + c * gauss_total) at_top"
    by (intro tendsto_intros gauss_integral_at_top)
  then have "(cdf P \<longlongrightarrow> a + c * gauss_total) at_top"
    by (simp only: cdfP)
  moreover have "(cdf P \<longlongrightarrow> 1) at_top"
    using P by (simp add: gaussian_def)
  ultimately have top: "a + c * gauss_total = 1"
    by (rule tendsto_unique [OF trivial_limit_at_top_linorder])
  define m where "m = c * gauss_total"
  from bot top have "a - m = 0" "a + m = 1"
    by (simp_all add: m_def)
  then have a: "a = 1 / 2" and m: "m = 1 / 2"
    by linarith+
  have cval: "c = 1 / (2 * gauss_total)"
    using m gauss_total_pos by (simp add: m_def field_simps)
  show "pdf P = pdf normalised_gauss"
    by (rule ext) (simp add: c(2) cval normalised_gauss_def)
  show "cdf P = cdf normalised_gauss"
    using gauss_total_pos
    by (intro ext) (simp add: eq a cval normalised_gauss_def field_simps)
qed


lemma std_norm_cdf_integral: "std_norm_cdf x = 1 / 2 + gauss_integral x / sqrt (2 * pi)"
  by (simp add: std_norm_cdf_def gauss_integral_def)

lemma std_norm_cdf_deriv: "(std_norm_cdf has_real_derivative std_norm_pdf x) (at x)"
proof -
  have "((\<lambda>x. 1 / 2 + gauss_integral x / sqrt (2 * pi)) has_real_derivative
          0 + exp (- (x\<^sup>2) / 2) / sqrt (2 * pi)) (at x)"
    by (rule DERIV_add [OF DERIV_const DERIV_cdivide [OF gauss_integral_deriv]])
  moreover have "std_norm_cdf = (\<lambda>x. 1 / 2 + gauss_integral x / sqrt (2 * pi))"
    by (rule ext) (rule std_norm_cdf_integral)
  ultimately show ?thesis
    by (simp add: std_norm_pdf_def)
qed

lemma gaussian_scipy_norm_iff: "gaussian scipy_norm \<longleftrightarrow> gauss_total = sqrt (pi / 2)"
proof
  assume "gaussian scipy_norm"
  from gaussian_unique(2) [OF this] have "pdf scipy_norm 0 = pdf normalised_gauss 0"
    by simp
  then have "sqrt (2 * pi) = 2 * gauss_total"
    using gauss_total_pos by (simp add: scipy_norm_def normalised_gauss_def std_norm_pdf_def field_simps)
  moreover have "sqrt (2 * pi) = 2 * sqrt (pi / 2)"
    using real_sqrt_mult [of 4 "pi / 2"] by simp
  ultimately show "gauss_total = sqrt (pi / 2)" by simp
next
  assume t: "gauss_total = sqrt (pi / 2)"
  have s: "sqrt (2 * pi) = 2 * sqrt (pi / 2)"
    using real_sqrt_mult [of 4 "pi / 2"] by simp
  have "cdf scipy_norm = cdf normalised_gauss"
    by (rule ext) (simp add: scipy_norm_def normalised_gauss_def std_norm_cdf_integral t s
        add_divide_distrib)
  moreover have "pdf scipy_norm = pdf normalised_gauss"
    by (rule ext) (simp add: scipy_norm_def normalised_gauss_def std_norm_pdf_def t s)
  ultimately have "scipy_norm = normalised_gauss" by simp
  then show "gaussian scipy_norm"
    using gaussian_normalised_gauss by simp
qed

subsection \<open>The sign of the forward payoff\<close>

lemma forward_sign:
  fixes s k \<rho> t :: real
  assumes "0 < s" "0 < k"
  shows "0 < ln (s / k) + \<rho> * t \<Longrightarrow> k * exp (- (\<rho> * t)) < s"
    and "ln (s / k) + \<rho> * t < 0 \<Longrightarrow> s < k * exp (- (\<rho> * t))"
proof -
  define D where "D = k * exp (- (\<rho> * t))"
  have D: "0 < D" using assms by (simp add: D_def)
  have r: "exp (ln (s / k) + \<rho> * t) * D = s"
    using forward_ratio [OF assms, of \<rho> t] by (simp add: D_def)
  show "k * exp (- (\<rho> * t)) < s" if "0 < ln (s / k) + \<rho> * t"
  proof -
    have "1 < exp (ln (s / k) + \<rho> * t)" using that by simp
    then have "1 * D < exp (ln (s / k) + \<rho> * t) * D"
      using D by (rule mult_strict_right_mono)
    then show ?thesis using r by (simp add: D_def)
  qed
  show "s < k * exp (- (\<rho> * t))" if "ln (s / k) + \<rho> * t < 0"
  proof -
    have "exp (ln (s / k) + \<rho> * t) < 1" using that by simp
    then have "exp (ln (s / k) + \<rho> * t) * D < 1 * D"
      using D by (rule mult_strict_right_mono)
    then show ?thesis using r by (simp add: D_def)
  qed
qed


subsection \<open>Values of the distribution that do not underflow\<close>














lemma sqrt_two_pi_ge: "2 \<le> sqrt (2 * pi)"
proof -
  have "4 \<le> 2 * pi" using pi_ge_two by simp
  then have "sqrt 4 \<le> sqrt (2 * pi)" by (rule real_sqrt_le_mono)
  moreover have "sqrt 4 = 2" using real_sqrt_abs [of 2] by simp
  ultimately show ?thesis by simp
qed


lemma std_norm_cdf_in_range:
  assumes x: "\<bar>x\<bar> \<le> 1 / 2"
  shows "cdf_in_range scipy_norm x"
proof -
  have "x\<^sup>2 \<le> (1 / 2)\<^sup>2"
    using x by (metis abs_ge_zero abs_power2 power_mono power2_abs)
  then have x2: "x\<^sup>2 / 2 \<le> 1 / 8" by (simp add: power2_eq_square)
  have "exp (x\<^sup>2 / 2) \<le> exp (1 / 8 :: real)" using x2 by simp
  also have "\<dots> \<le> 1 + 1 / 8 + (1 / 8)\<^sup>2" by (rule exp_bound) simp_all
  finally have e: "exp (x\<^sup>2 / 2) \<le> 6 / 5" by (simp add: power2_eq_square)
  have "\<bar>x\<bar> * exp (x\<^sup>2 / 2) \<le> (1 / 2) * (6 / 5)"
    by (rule mult_mono) (use x e in simp_all)
  then have g: "\<bar>\<Sum>n. gauss_term x n\<bar> \<le> 3 / 5"
    using gauss_sum_abs_le [of x] by linarith
  have "\<bar>(\<Sum>n. gauss_term x n) / sqrt (2 * pi)\<bar> = \<bar>\<Sum>n. gauss_term x n\<bar> / sqrt (2 * pi)"
    by simp
  also have "\<dots> \<le> (3 / 5) / 2"
    by (rule frac_le) (use g sqrt_two_pi_ge in simp_all)
  finally have "\<bar>std_norm_cdf x - 1 / 2\<bar> \<le> 3 / 10"
    by (simp add: std_norm_cdf_def)
  then have "1 / 5 \<le> std_norm_cdf x" "std_norm_cdf x \<le> 1" by linarith+
  moreover have "(1::real) / 2 ^ 500 \<le> 1 / 5" by simp
  ultimately show ?thesis by (simp add: cdf_in_range_def scipy_norm_def)
qed


lemma cdf_in_range_representable: "cdf_in_range P x \<Longrightarrow> mag 500 (cdf P x)"
proof -
  assume c: "cdf_in_range P x"
  have "(1::real) \<le> 2 ^ 500" by simp
  moreover have "(0::real) < 1 / 2 ^ 500" by simp
  ultimately show ?thesis using c unfolding cdf_in_range_def mag_def by linarith
qed


lemma norm_cdf_Fin: "cdf_in_range P x \<Longrightarrow> norm_cdf P (Fin x) = Fin (cdf P x)"
  using representable_mag [OF cdf_in_range_representable, of P x] by (simp add: to_double_Fin)



subsection \<open>Products, quotients and sums inside the range\<close>

lemma times_Fin_mag: "mag m a \<Longrightarrow> mag n b \<Longrightarrow> m + n \<le> 1000 \<Longrightarrow> Fin a * Fin b = Fin (a * b)"
  by (rule times_Fin) (rule representable_mag [OF mag_mult])

lemma divide_Fin_mag: "mag m a \<Longrightarrow> mag n b \<Longrightarrow> m + n \<le> 1000 \<Longrightarrow> Fin a / Fin b = Fin (a / b)"
  by (rule divide_Fin [OF mag_pos]) (auto intro: representable_mag [OF mag_divide])

lemma power_two_sum_le:
  assumes "m < 1000" "n < 1000"
  shows "(2::real) ^ m + 2 ^ n \<le> 2 ^ 1000"
proof -
  have "(2::real) ^ m \<le> 2 ^ 999" "(2::real) ^ n \<le> 2 ^ 999"
    by (rule power_increasing, use assms in simp, simp)+
  moreover have "(2::real) ^ 999 + 2 ^ 999 = 2 ^ 1000" by simp
  ultimately show ?thesis by linarith
qed

lemma plus_Fin_le:
  assumes "\<bar>a\<bar> \<le> 2 ^ m" "\<bar>b\<bar> \<le> 2 ^ n" "m < 1000" "n < 1000"
  shows "Fin a + Fin b = Fin (a + b)"
proof (rule plus_Fin)
  have "\<bar>a + b\<bar> \<le> 2 ^ m + 2 ^ n" using assms(1,2) by linarith
  then show "\<bar>a + b\<bar> \<le> 2 ^ 1000" using power_two_sum_le [OF assms(3,4)] by linarith
qed

lemma minus_Fin_le:
  assumes "\<bar>a\<bar> \<le> 2 ^ m" "\<bar>b\<bar> \<le> 2 ^ n" "m < 1000" "n < 1000"
  shows "Fin a - Fin b = Fin (a - b)"
proof (rule minus_Fin)
  have "\<bar>a - b\<bar> \<le> 2 ^ m + 2 ^ n" using assms(1,2) by linarith
  then show "\<bar>a - b\<bar> \<le> 2 ^ 1000" using power_two_sum_le [OF assms(3,4)] by linarith
qed

lemma abs_sum_le_power:
  fixes a b :: real
  assumes "\<bar>a\<bar> \<le> 2 ^ m" "\<bar>b\<bar> \<le> 2 ^ n" "m < l" "n < l"
  shows "\<bar>a + b\<bar> \<le> 2 ^ l"
proof -
  obtain l' where l: "l = Suc l'" using assms(3) by (cases l) simp_all
  have "(2::real) ^ m \<le> 2 ^ l'" "(2::real) ^ n \<le> 2 ^ l'"
    by (rule power_increasing, use assms(3,4) l in simp, simp)+
  then have "(2::real) ^ m + 2 ^ n \<le> 2 ^ l" unfolding l power_Suc by linarith
  moreover have "\<bar>a + b\<bar> \<le> 2 ^ m + 2 ^ n" using assms(1,2) by linarith
  ultimately show ?thesis by linarith
qed

lemma magz_abs_le: "magz n x \<Longrightarrow> \<bar>x\<bar> \<le> 2 ^ n"
  by (auto simp add: magz_def mag_def)

lemma not_tiny_mag:
  assumes "not_tiny x" "x \<noteq> 0" "\<bar>x\<bar> \<le> 2 ^ n" "100 \<le> n"
  shows "mag n x"
proof -
  have "1 / 2 ^ 100 \<le> \<bar>x\<bar>" using assms(1,2) by (simp add: not_tiny_def)
  moreover have "(2::real) ^ 100 \<le> 2 ^ n"
    by (rule power_increasing [OF assms(4)]) simp
  then have "1 / (2::real) ^ n \<le> 1 / 2 ^ 100"
    by (intro divide_left_mono) simp_all
  ultimately show ?thesis using assms(3) unfolding mag_def by linarith
qed

lemma mag_half: "mag 1 (0.5 :: real)"
  by (simp add: mag_def)

subsection \<open>The closed-form pricers inside the range\<close>

text \<open>
  On moderate inputs every intermediate result of the pricers is inside the range of a
  double, and the doubles \<open>d1\<close>, \<open>d2\<close> and \<open>K e\<^sup>-\<^sup>r\<^sup>T\<close> are the values of the formulas.
\<close>

lemma drift_eval:
  assumes v: "in_range v" and r: "magz 100 \<rho>"
  shows "Fin \<rho> + Fin 0.5 * (Fin v * Fin v) = Fin (\<rho> + v\<^sup>2 / 2)"
    and "Fin \<rho> - Fin 0.5 * (Fin v * Fin v) = Fin (\<rho> - v\<^sup>2 / 2)"
    and "\<bar>\<rho> + v\<^sup>2 / 2\<bar> \<le> 2 ^ 202" and "\<bar>\<rho> - v\<^sup>2 / 2\<bar> \<le> 2 ^ 202"
proof -
  have mv: "mag 100 v" using v by (rule in_range_mag)
  have sq: "Fin v * Fin v = Fin (v * v)"
    by (rule times_Fin_mag [OF mv mv]) simp
  have mvv: "mag 200 (v * v)" using mag_mult [OF mv mv] by simp
  have h: "Fin 0.5 * Fin (v * v) = Fin (0.5 * (v * v))"
    by (rule times_Fin_mag [OF mag_half mvv]) simp
  have mh: "mag 201 (0.5 * (v * v))" using mag_mult [OF mag_half mvv] by simp
  have e: "0.5 * (v * v) = v\<^sup>2 / 2" by (simp add: power2_eq_square)
  have a: "\<bar>\<rho>\<bar> \<le> 2 ^ 100" using r by (rule magz_abs_le)
  have b: "\<bar>v\<^sup>2 / 2\<bar> \<le> 2 ^ 201" using mag_abs_le [OF mh] unfolding e .
  show "Fin \<rho> + Fin 0.5 * (Fin v * Fin v) = Fin (\<rho> + v\<^sup>2 / 2)"
    unfolding sq h e by (rule plus_Fin_le [OF a b]) simp_all
  show "Fin \<rho> - Fin 0.5 * (Fin v * Fin v) = Fin (\<rho> - v\<^sup>2 / 2)"
    unfolding sq h e by (rule minus_Fin_le [OF a b]) simp_all
  show "\<bar>\<rho> + v\<^sup>2 / 2\<bar> \<le> 2 ^ 202"
    by (rule abs_sum_le_power [OF a b]) simp_all
  have b': "\<bar>- (v\<^sup>2 / 2)\<bar> \<le> 2 ^ 201" using b by simp
  show "\<bar>\<rho> - v\<^sup>2 / 2\<bar> \<le> 2 ^ 202"
    using abs_sum_le_power [OF a b', of 202] by simp
qed

lemma scaled_eval:
  assumes x: "not_tiny x" "\<bar>x\<bar> \<le> 2 ^ 202" and t: "in_range t"
  shows "Fin x * Fin t = Fin (x * t)" and "\<bar>x * t\<bar> \<le> 2 ^ 302"
proof -
  have mt: "mag 100 t" using t by (rule in_range_mag)
  show "Fin x * Fin t = Fin (x * t)"
  proof (cases "x = 0")
    case True
    then show ?thesis by (simp add: to_double_0)
  next
    case False
    have "mag 202 x" by (rule not_tiny_mag [OF x(1) False x(2)]) simp
    then show ?thesis by (rule times_Fin_mag [OF _ mt]) simp
  qed
  have "\<bar>x\<bar> * \<bar>t\<bar> \<le> 2 ^ 202 * 2 ^ 100"
    by (rule mult_mono) (use x(2) mag_abs_le [OF mt] in simp_all)
  then show "\<bar>x * t\<bar> \<le> 2 ^ 302" by (simp add: abs_mult)
qed

lemma width_eval:
  assumes v: "in_range v" and t: "in_range t"
  shows "Fin v * np_sqrt (Fin t) = Fin (v * sqrt t)" and "mag 200 (v * sqrt t)"
    and "0 < v * sqrt t"
proof -
  have mv: "mag 100 v" using v by (rule in_range_mag)
  have tp: "0 < t" using t by (rule in_range_pos)
  have ms: "mag 100 (sqrt t)" by (rule mag_sqrt [OF in_range_mag [OF t] tp])
  have s: "np_sqrt (Fin t) = Fin (sqrt t)" using tp by simp
  show "Fin v * np_sqrt (Fin t) = Fin (v * sqrt t)"
    unfolding s by (rule times_Fin_mag [OF mv ms]) simp
  show "mag 200 (v * sqrt t)" using mag_mult [OF mv ms] by simp
  show "0 < v * sqrt t" using in_range_pos [OF v] tp by simp
qed

lemma log_ratio_eval:
  assumes s: "in_range s" and k: "in_range k"
  shows "np_log (Fin s / Fin k) = Fin (ln (s / k))" and "\<bar>ln (s / k)\<bar> \<le> 2 ^ 200"
    and "Fin s / Fin k = Fin (s / k)"
proof -
  have ms: "mag 100 s" and mk: "mag 100 k" using s k by (simp_all add: in_range_mag)
  have pos: "0 < s / k" using in_range_pos [OF s] in_range_pos [OF k] by simp
  have m: "mag 200 (s / k)" using mag_divide [OF ms mk] by simp
  show q: "Fin s / Fin k = Fin (s / k)"
    by (rule divide_Fin_mag [OF ms mk]) simp
  show "np_log (Fin s / Fin k) = Fin (ln (s / k))"
    unfolding q using pos by simp
  show "\<bar>ln (s / k)\<bar> \<le> 2 ^ 200" by (rule ln_abs_le [OF pos m])
qed

lemma discount_eval:
  assumes k: "in_range k" and t: "in_range t" and r: "magz 100 \<rho>" and rt: "\<bar>\<rho> * t\<bar> \<le> 100"
  shows "np_exp ((- Fin \<rho>) * Fin t) = Fin (exp (- \<rho> * t))"
    and "Fin k * np_exp ((- Fin \<rho>) * Fin t) = Fin (k * exp (- \<rho> * t))"
    and "mag 300 (k * exp (- \<rho> * t))" and "mag 200 (exp (- \<rho> * t))"
proof -
  have mk: "mag 100 k" and mt: "mag 100 t" using k t by (simp_all add: in_range_mag)
  have p: "Fin (- \<rho>) * Fin t = Fin (- \<rho> * t)"
  proof (cases "\<rho> = 0")
    case True
    then show ?thesis by (simp add: to_double_0)
  next
    case False
    then have "mag 100 (- \<rho>)" using r by (simp add: magz_def mag_minus)
    then show ?thesis by (rule times_Fin_mag [OF _ mt]) simp
  qed
  have "\<bar>- \<rho> * t\<bar> \<le> 100" using rt by simp
  then show me: "mag 200 (exp (- \<rho> * t))" by (rule mag_exp)
  show e: "np_exp ((- Fin \<rho>) * Fin t) = Fin (exp (- \<rho> * t))"
    using representable_mag [OF me] by (simp only: uminus_float64.simps p np_exp.simps)
      (simp add: to_double_Fin)
  show "Fin k * np_exp ((- Fin \<rho>) * Fin t) = Fin (k * exp (- \<rho> * t))"
    unfolding e by (rule times_Fin_mag [OF mk me]) simp
  show "mag 300 (k * exp (- \<rho> * t))" using mag_mult [OF mk me] by simp
qed

lemma d1_eval:
  assumes m: "moderate s k t \<rho> v"
  shows "(np_log (Fin s / Fin k) + (Fin \<rho> + Fin 0.5 * (Fin v * Fin v)) * Fin t)
           / (Fin v * np_sqrt (Fin t)) = Fin (d1_formula s k t \<rho> v)"
    and "Fin (d1_formula s k t \<rho> v) - Fin v * np_sqrt (Fin t) = Fin (d2_formula s k t \<rho> v)"
proof -
  have s: "in_range s" and k: "in_range k" and t: "in_range t" and v: "in_range v"
    and r: "magz 100 \<rho>" and x: "not_tiny (\<rho> + v\<^sup>2 / 2)"
    and n: "not_tiny (ln (s / k) + (\<rho> + v\<^sup>2 / 2) * t)"
    using m by (simp_all add: moderate_def)
  note drift = drift_eval [OF v r]
  note scaled = scaled_eval [OF x drift(3) t]
  note width = width_eval [OF v t]
  note lg = log_ratio_eval [OF s k]
  have num: "Fin (ln (s / k)) + Fin ((\<rho> + v\<^sup>2 / 2) * t) = Fin (ln (s / k) + (\<rho> + v\<^sup>2 / 2) * t)"
    by (rule plus_Fin_le [OF lg(2) scaled(2)]) simp_all
  have nb: "\<bar>ln (s / k) + (\<rho> + v\<^sup>2 / 2) * t\<bar> \<le> 2 ^ 303"
    by (rule abs_sum_le_power [OF lg(2) scaled(2)]) simp_all
  have q: "Fin (ln (s / k) + (\<rho> + v\<^sup>2 / 2) * t) / Fin (v * sqrt t) = Fin (d1_formula s k t \<rho> v)"
  proof (cases "ln (s / k) + (\<rho> + v\<^sup>2 / 2) * t = 0")
    case True
    then show ?thesis
      using in_range_pos [OF v] in_range_pos [OF t] by (simp add: d1_formula_def to_double_0)
  next
    case False
    have "mag 303 (ln (s / k) + (\<rho> + v\<^sup>2 / 2) * t)"
      by (rule not_tiny_mag [OF n False nb]) simp
    from divide_Fin_mag [OF this width(2)] show ?thesis
      by (simp add: d1_formula_def)
  qed
  show d1: "(np_log (Fin s / Fin k) + (Fin \<rho> + Fin 0.5 * (Fin v * Fin v)) * Fin t)
           / (Fin v * np_sqrt (Fin t)) = Fin (d1_formula s k t \<rho> v)"
    by (simp only: lg(1) drift(1) scaled(1) num width(1) q)
  have d1b: "\<bar>d1_formula s k t \<rho> v\<bar> \<le> 2 ^ 503"
  proof -
    have "\<bar>ln (s / k) + (\<rho> + v\<^sup>2 / 2) * t\<bar> / \<bar>v * sqrt t\<bar> \<le> 2 ^ 303 / (1 / 2 ^ 200)"
      by (rule frac_le) (use nb width(2) in \<open>simp_all add: mag_def\<close>)
    then show ?thesis by (simp add: d1_formula_def)
  qed
  show "Fin (d1_formula s k t \<rho> v) - Fin v * np_sqrt (Fin t) = Fin (d2_formula s k t \<rho> v)"
    unfolding width(1) d2_formula_def
    by (rule minus_Fin_le [OF d1b mag_abs_le [OF width(2)]]) simp_all
qed

lemma moderate_square:
  assumes m: "moderate s k t \<rho> v" and V: "val sigma = Fin v"
  shows "square sigma = Inr (Fin v * Fin v)"
proof -
  have mv: "mag 100 v" using m by (simp add: moderate_def in_range_mag)
  have "\<bar>v * v\<bar> \<le> 2 ^ 200" using mag_abs_le [OF mag_mult [OF mv mv]] by simp
  moreover have "(2::real) ^ 200 \<le> 2 ^ 1000" by simp
  ultimately have "\<bar>v * v\<bar> \<le> 2 ^ 1000" by linarith
  then show ?thesis by (rule square_Fin [OF V])
qed

lemma moderate_truediv:
  assumes m: "moderate s k t \<rho> v" and K: "val K = Fin k"
  shows "truediv (Fin s) K = Inr (Fin s / Fin k)"
proof -
  have "k \<noteq> 0" using m by (auto simp add: moderate_def in_range_def)
  then show ?thesis by (rule truediv_val [OF K])
qed


lemma put_value_eval:
  assumes m: "moderate s k t \<rho> v"
    and c1: "cdf_in_range P (- d1_formula s k t \<rho> v)"
    and c2: "cdf_in_range P (- d2_formula s k t \<rho> v)"
  shows "Fin k * np_exp ((- Fin \<rho>) * Fin t) * norm_cdf P (- Fin (d2_formula s k t \<rho> v))
           - Fin s * norm_cdf P (- Fin (d1_formula s k t \<rho> v))
         = Fin (put_formula P s k t \<rho> v)"
proof -
  have s: "in_range s" and k: "in_range k" and t: "in_range t"
    and r: "magz 100 \<rho>" and rt: "\<bar>\<rho> * t\<bar> \<le> 100"
    using m by (simp_all add: moderate_def)
  note disc = discount_eval [OF k t r rt]
  note m1 = cdf_in_range_representable [OF c1]
  note m2 = cdf_in_range_representable [OF c2]
  have a: "Fin s * Fin (cdf P (- d1_formula s k t \<rho> v)) = Fin (s * cdf P (- d1_formula s k t \<rho> v))"
    by (rule times_Fin_mag [OF in_range_mag [OF s] m1]) simp
  have ma: "mag 600 (s * cdf P (- d1_formula s k t \<rho> v))"
    using mag_mult [OF in_range_mag [OF s] m1] by simp
  have b: "Fin (k * exp (- \<rho> * t)) * Fin (cdf P (- d2_formula s k t \<rho> v))
           = Fin (k * exp (- \<rho> * t) * cdf P (- d2_formula s k t \<rho> v))"
    by (rule times_Fin_mag [OF disc(3) m2]) simp
  have mb: "mag 800 (k * exp (- \<rho> * t) * cdf P (- d2_formula s k t \<rho> v))"
    using mag_mult [OF disc(3) m2] by simp
  have "Fin (k * exp (- \<rho> * t) * cdf P (- d2_formula s k t \<rho> v))
          - Fin (s * cdf P (- d1_formula s k t \<rho> v))
        = Fin (put_formula P s k t \<rho> v)"
    unfolding put_formula_def
    by (rule minus_Fin_le [OF mag_abs_le [OF mb] mag_abs_le [OF ma]]) simp_all
  moreover have "norm_cdf P (- Fin (d1_formula s k t \<rho> v)) = Fin (cdf P (- d1_formula s k t \<rho> v))"
    by (simp only: uminus_float64.simps norm_cdf_Fin [OF c1])
  moreover have "norm_cdf P (- Fin (d2_formula s k t \<rho> v)) = Fin (cdf P (- d2_formula s k t \<rho> v))"
    by (simp only: uminus_float64.simps norm_cdf_Fin [OF c2])
  ultimately show ?thesis
    by (simp only: disc(2) a b)
qed




lemma BSM_put_fin:
  assumes OPT: "OPT \<noteq> ''call''"
    and K: "val K = Fin k" and V: "val sigma = Fin v" and m: "moderate s k t \<rho> v"
    and c1: "cdf_in_range P (- d1_formula s k t \<rho> v)"
    and c2: "cdf_in_range P (- d2_formula s k t \<rho> v)"
  shows "BSM P (Fin s) K (Fin t) (Fin \<rho>) sigma OPT = Inr (Fin (put_formula P s k t \<rho> v))"
proof -
  have ne: "(OPT = ''call'') = False" using OPT by simp
  have swap: "(- x) * y + z = z - x * y" for x y z :: float64
    by (simp add: float64_minus_mult_left minus_float64_def float64_add_commute)
  show ?thesis
    unfolding BSM_def moderate_truediv [OF m K] moderate_square [OF m V]
    by (simp only: sum.case Let_def K V float64_mult_commute [of "np_sqrt (Fin t)" "Fin v"]
        d1_eval [OF m] swap put_value_eval [OF m c1 c2] ne if_False)
qed


subsection \<open>When the pricers return\<close>

text \<open>
  The pricers raise in three ways only: the division \<^verbatim>\<open>S / K\<close> of plain floats by
  zero, the power \<^verbatim>\<open>sigma**2\<close> of a plain float that overflows, and, in
  \<^verbatim>\<open>black_scholes\<close>, an option type that is neither call nor put. Everything else
  is numpy arithmetic, which returns infinities and not-a-number.
\<close>

lemma black_scholes_returns:
  assumes "option_type = ''call'' \<or> option_type = ''put''"
    and "truediv S K = Inr q" and "square sigma = Inr sq"
  shows "\<exists>price. black_scholes P S K T r sigma option_type = Inr price"
  using assms by (auto simp add: black_scholes_def Let_def)

lemma BSM_returns:
  assumes "truediv S K = Inr q" and "square sigma = Inr sq"
  shows "\<exists>price. BSM P S K T r sigma OPT = Inr price"
  using assms by (simp add: BSM_def Let_def)

lemma square_plain_initial: "square (PyFloat (Fin 0.2)) = square (NpFloat64 (Fin 0.2))"
  by (simp add: overflow_threshold_def)

lemma black_scholes_plain_initial:
  "black_scholes P S K T r (PyFloat (Fin 0.2)) option_type
   = black_scholes P S K T r (NpFloat64 (Fin 0.2)) option_type"
  unfolding black_scholes_def square_plain_initial by (simp only: val.simps)

subsection \<open>The implied-volatility solver\<close>

lemma black_scholes_price_at:
  assumes "option_type = ''call'' \<or> option_type = ''put''" and "truediv S K = Inr q"
  shows "black_scholes P S K T r (NpFloat64 sigma) option_type
         = Inr (price_at P S K T r option_type sigma)"
  using assms by (auto simp add: price_at_def black_scholes_def Let_def)

lemma newton_loop_Suc:
  assumes ot: "option_type = ''call'' \<or> option_type = ''put''" and q: "truediv S K = Inr q"
  shows "newton_loop P S K T r market_price option_type tol (Suc n) (NpFloat64 sigma) =
           (if vega_at P S K T r sigma = Fin 0 then Inl ZeroVega
            else if converged_at P S K T r market_price option_type tol sigma then Inr sigma
            else newton_loop P S K T r market_price option_type tol n
                   (NpFloat64 (newton_step P S K T r market_price option_type sigma)))"
  using truediv_val_eq [OF q]
  by (simp add: black_scholes_price_at [OF ot q] q vega_at_def converged_at_def newton_step_def Let_def)

lemma newton_loop_plain_initial:
  "newton_loop P S K T r market_price option_type tol n (PyFloat (Fin 0.2))
   = newton_loop P S K T r market_price option_type tol n (NpFloat64 (Fin 0.2))"
proof (cases n)
  case 0
  then show ?thesis by simp
next
  case (Suc m)
  show ?thesis
    unfolding Suc newton_loop.simps black_scholes_plain_initial square_plain_initial
    by (simp only: val.simps)
qed

lemma estimate_0: "estimate P S K T r market_price option_type sigma 0 = sigma"
  by (simp add: estimate_def)

lemma estimate_Suc:
  "estimate P S K T r market_price option_type sigma (Suc i) =
     estimate P S K T r market_price option_type
       (newton_step P S K T r market_price option_type sigma) i"
  by (simp add: estimate_def funpow_swap1)



lemma newton_loop_converged:
  assumes ot: "option_type = ''call'' \<or> option_type = ''put''" and q: "truediv S K = Inr q"
  shows "newton_loop P S K T r market_price option_type tol n (NpFloat64 sigma) = Inr s \<longleftrightarrow>
           (\<exists>i<n. s = estimate P S K T r market_price option_type sigma i \<and>
                  vega_at P S K T r s \<noteq> Fin 0 \<and>
                  converged_at P S K T r market_price option_type tol s \<and>
                  (\<forall>j<i. goes_on P S K T r market_price option_type tol
                            (estimate P S K T r market_price option_type sigma j)))"
proof (induction n arbitrary: sigma)
  case 0
  show ?case by simp
next
  case (Suc n)
  show ?case
    unfolding newton_loop_Suc [OF ot q] Ex_less_Suc2 All_less_Suc2 estimate_0 estimate_Suc
    using Suc.IH [of "newton_step P S K T r market_price option_type sigma"]
    by (auto simp add: goes_on_def)
qed

lemma newton_loop_outcomes:
  assumes ot: "option_type = ''call'' \<or> option_type = ''put''" and q: "truediv S K = Inr q"
  shows "newton_loop P S K T r market_price option_type tol n (NpFloat64 sigma) = Inl ZeroVega \<or>
         newton_loop P S K T r market_price option_type tol n (NpFloat64 sigma) = Inl NoConvergence \<or>
         (\<exists>s. newton_loop P S K T r market_price option_type tol n (NpFloat64 sigma) = Inr s)"
proof (induction n arbitrary: sigma)
  case 0
  show ?case by simp
next
  case (Suc n)
  show ?case
    unfolding newton_loop_Suc [OF ot q]
    using Suc.IH [of "newton_step P S K T r market_price option_type sigma"]
    by auto
qed




lemma example_moderate: "moderate 100 100 1 0.05 0.2"
  by (simp add: moderate_def in_range_def mag_def magz_def not_tiny_def power2_eq_square)

lemma example_d1: "d1_formula 100 100 1 0.05 0.2 = 0.35" "d2_formula 100 100 1 0.05 0.2 = 0.15"
  by (simp_all add: d1_formula_def d2_formula_def power2_eq_square)





subsection \<open>The smile calibrator\<close>

lemma implied_volatility_numpy:
  "implied_volatility P S K T r market_price option_type tol max_iter
   = newton_loop P S K T r market_price option_type tol max_iter (NpFloat64 (Fin 0.2))"
  unfolding implied_volatility_def by (rule newton_loop_plain_initial)

lemma collect_Inr: "(\<And>x. f x = Inr (h x)) \<Longrightarrow> collect f xs = Inr (map h xs)"
  by (induction xs) simp_all

lemma smile_entry_eq:
  "smile_entry P S T r K samples =
     Inr (case implied_volatility P S (NpFloat64 K) T r
                 (np_mean (map (price_at P S (NpFloat64 K) T r ''call'') samples)) ''call''
                 default_tol default_max_iter of
            Inr iv \<Rightarrow> iv
          | Inl e \<Rightarrow> NaN)"
proof -
  have ot: "''call'' = ''call'' \<or> ''call'' = ''put''" by simp
  have q: "truediv S (NpFloat64 K) = Inr (S / K)" by simp
  have c: "collect (\<lambda>sigma. black_scholes P S (NpFloat64 K) T r (NpFloat64 sigma) ''call'') samples
           = Inr (map (price_at P S (NpFloat64 K) T r ''call'') samples)"
    by (rule collect_Inr) (rule black_scholes_price_at [OF ot q])
  show ?thesis
    unfolding smile_entry_def c implied_volatility_numpy
    using newton_loop_outcomes [OF ot q, of P T r
        "np_mean (map (price_at P S (NpFloat64 K) T r ''call'') samples)"
        default_tol default_max_iter "Fin 0.2"]
    by (auto simp add: Let_def)
qed

lemma smile_loop_eq:
  "smile_loop P rng S T r base_volatility n_simulations Ks implied_vols g =
     (Inr (implied_vols @ smile_vols P rng S T r base_volatility n_simulations Ks g),
      (next_gen rng base_volatility n_simulations ^^ length Ks) g)"
proof (induction Ks arbitrary: implied_vols g)
  case Nil
  show ?case by simp
next
  case (Cons K Ks)
  obtain samples g' where d: "normal rng g base_volatility (Fin 0.05) n_simulations = (samples, g')"
    by (cases "normal rng g base_volatility (Fin 0.05) n_simulations")
  have g': "next_gen rng base_volatility n_simulations g = g'"
    using d by (simp add: next_gen_def)
  have p: "smile_point P rng S T r base_volatility n_simulations K g =
             (case implied_volatility P S (NpFloat64 K) T r
                     (np_mean (map (price_at P S (NpFloat64 K) T r ''call'') samples)) ''call''
                     default_tol default_max_iter of
                Inr iv \<Rightarrow> iv
              | Inl e \<Rightarrow> NaN)"
    using d by (simp add: smile_point_def)
  have "smile_loop P rng S T r base_volatility n_simulations (K # Ks) implied_vols g =
          smile_loop P rng S T r base_volatility n_simulations Ks
            (implied_vols @ [smile_point P rng S T r base_volatility n_simulations K g]) g'"
    using d by (simp add: smile_entry_eq p)
  then show ?case
    by (simp add: Cons.IH g' funpow_swap1)
qed

lemma np_linspace_length: "length (np_linspace start stop num) = num"
  by (simp add: np_linspace_def Let_def)

lemma smile_run:
  "monte_carlo_volatility_smile P rng g S T r base_volatility n_simulations =
     (Inr (np_linspace (S * Fin 0.8) (S * Fin 1.2) 50,
           smile_vols P rng S T r base_volatility n_simulations
             (np_linspace (S * Fin 0.8) (S * Fin 1.2) 50) g),
      (next_gen rng base_volatility n_simulations ^^ 50) g)"
  unfolding monte_carlo_volatility_smile_def Let_def smile_loop_eq np_linspace_length
  by simp

text \<open>
  C3. For every input the smile calibrator returns: it never raises. The volatility it
  records for a strike is the one \<open>smile_point\<close> describes, the solver's result when
  the solver succeeds and the not-a-number sentinel when the solver fails with zero vega
  or without convergence, and the loop goes on to the next strike.
\<close>

theorem smile_never_fails:
  "monte_carlo_volatility_smile P rng g S T r base_volatility n_simulations =
     (Inr (np_linspace (S * Fin 0.8) (S * Fin 1.2) 50,
           smile_vols P rng S T r base_volatility n_simulations
             (np_linspace (S * Fin 0.8) (S * Fin 1.2) 50) g),
      (next_gen rng base_volatility n_simulations ^^ 50) g)"
  by (rule smile_run)

lemma smile_vols_length:
  "length (smile_vols P rng S T r base_volatility n_simulations Ks g) = length Ks"
  by (induction Ks arbitrary: g) simp_all

lemma smile_vols_nth:
  "i < length Ks \<Longrightarrow>
   smile_vols P rng S T r base_volatility n_simulations Ks g ! i =
     smile_point P rng S T r base_volatility n_simulations (Ks ! i)
       ((next_gen rng base_volatility n_simulations ^^ i) g)"
proof (induction Ks arbitrary: i g)
  case Nil
  then show ?case by simp
next
  case (Cons K Ks)
  show ?case
  proof (cases i)
    case 0
    then show ?thesis by simp
  next
    case (Suc i')
    then have "i' < length Ks" using Cons.prems by simp
    from Cons.IH [OF this] show ?thesis
      unfolding Suc by (simp add: funpow_swap1)
  qed
qed

text \<open>
  An example in which every strike fails: with no simulated volatilities the market
  price is the mean of nothing, not-a-number, the solver never converges, and the curve
  carries the sentinel at all 50 strikes.
\<close>

lemma implied_volatility_nan_market:
  assumes ot: "option_type = ''call'' \<or> option_type = ''put''" and q: "truediv S K = Inr q"
  shows "implied_volatility P S K T r NaN option_type tol max_iter \<noteq> Inr s"
  unfolding implied_volatility_numpy newton_loop_converged [OF ot q]
  by (simp add: converged_at_def minus_float64_def)

lemma smile_point_no_samples: "smile_point P replay S T r base_volatility 0 K g = NaN"
proof -
  have ot: "''call'' = ''call'' \<or> ''call'' = ''put''" by simp
  have q: "truediv S (NpFloat64 K) = Inr (S / K)" by simp
  show ?thesis
    using implied_volatility_nan_market [OF ot q, of P T r default_tol default_max_iter]
    by (simp add: smile_point_def replay_def np_mean_def split: sum.splits)
qed

lemma smile_vols_no_samples:
  "smile_vols P replay S T r base_volatility 0 Ks g = map (\<lambda>K. NaN) Ks"
  by (induction Ks arbitrary: g) (simp_all add: smile_point_no_samples)

theorem smile_never_fails_witness:
  "fst (monte_carlo_volatility_smile scipy_norm replay [] (Fin 100) (Fin 1) (Fin 0.05) (Fin 0.2) 0)
   = Inr (np_linspace (Fin 100 * Fin 0.8) (Fin 100 * Fin 1.2) 50, replicate 50 NaN)"
proof -
  have "length (np_linspace (Fin 100 * Fin 0.8) (Fin 100 * Fin 1.2) 50) = 50"
    by (rule np_linspace_length)
  then have "map (\<lambda>K. NaN :: float64) (np_linspace (Fin 100 * Fin 0.8) (Fin 100 * Fin 1.2) 50)
             = replicate 50 NaN"
    by (simp only: map_replicate_const)
  then show ?thesis
    unfolding smile_never_fails [of scipy_norm replay "[]" "Fin 100" "Fin 1" "Fin 0.05" "Fin 0.2" 0]
      smile_vols_no_samples
    by simp
qed

subsection \<open>The strike grid\<close>

lemma mag_numerals:
  "mag 1 (0.8 :: real)" "mag 1 (1.2 :: real)" "mag 2 (0.4 :: real)" "mag 6 (49 :: real)"
  by (simp_all add: mag_def)

lemma strike_grid:
  assumes s: "in_range s"
  shows "np_linspace (Fin s * Fin 0.8) (Fin s * Fin 1.2) 50 =
           map (\<lambda>i. Fin (0.8 * s + real i * ((1.2 * s - 0.8 * s) / 49))) [0..<50]"
proof -
  have ms: "mag 100 s" using s by (rule in_range_mag)
  have sp: "0 < s" using s by (rule in_range_pos)
  have start: "Fin s * Fin 0.8 = Fin (s * 0.8)"
    by (rule times_Fin_mag [OF ms mag_numerals(1)]) simp
  have stop: "Fin s * Fin 1.2 = Fin (s * 1.2)"
    by (rule times_Fin_mag [OF ms mag_numerals(2)]) simp
  have m1: "mag 101 (s * 0.8)" using mag_mult [OF ms mag_numerals(1)] by simp
  have m2: "mag 101 (s * 1.2)" using mag_mult [OF ms mag_numerals(2)] by simp
  have md: "mag 102 (s * 0.4)" using mag_mult [OF ms mag_numerals(3)] by simp
  have de: "s * 1.2 - s * 0.8 = s * 0.4" by simp
  have delta: "Fin (s * 1.2) - Fin (s * 0.8) = Fin (s * 0.4)"
    unfolding de [symmetric] by (rule minus_Fin_le [OF mag_abs_le [OF m2] mag_abs_le [OF m1]]) simp_all
  have step: "Fin (s * 0.4) / Fin (real (50 - 1)) = Fin (s * 0.4 / 49)"
    using divide_Fin_mag [OF md mag_numerals(4)] by simp
  have mstep: "mag 108 (s * 0.4 / 49)" using mag_divide [OF md mag_numerals(4)] by simp
  have nz: "Fin (s * 0.4 / 49) \<noteq> Fin 0" using mag_pos [OF mstep] by simp
  have entry: "Fin (real i) * Fin (s * 0.4 / 49) + Fin (s * 0.8)
               = Fin (0.8 * s + real i * ((1.2 * s - 0.8 * s) / 49))" if i: "i < 49" for i
  proof -
    have p: "Fin (real i) * Fin (s * 0.4 / 49) = Fin (real i * (s * 0.4 / 49))"
    proof (cases "i = 0")
      case True
      then show ?thesis by (simp add: to_double_0)
    next
      case False
      then have "1 \<le> real i" "real i \<le> 64" using i by simp_all
      then have "mag 6 (real i)" by (simp add: mag_def)
      then show ?thesis by (rule times_Fin_mag [OF _ mstep]) simp
    qed
    have "\<bar>real i\<bar> * \<bar>s * 0.4 / 49\<bar> \<le> 64 * 2 ^ 108"
      by (rule mult_mono) (use i mag_abs_le [OF mstep] in simp_all)
    then have b: "\<bar>real i * (s * 0.4 / 49)\<bar> \<le> 2 ^ 114" by (simp add: abs_mult)
    have "Fin (real i * (s * 0.4 / 49)) + Fin (s * 0.8) = Fin (real i * (s * 0.4 / 49) + s * 0.8)"
      by (rule plus_Fin_le [OF b mag_abs_le [OF m1]]) simp_all
    then show ?thesis unfolding p by (simp add: algebra_simps)
  qed
  have last: "Fin (s * 1.2) = Fin (0.8 * s + real 49 * ((1.2 * s - 0.8 * s) / 49))"
    by simp
  have "np_linspace (Fin s * Fin 0.8) (Fin s * Fin 1.2) 50
        = map (\<lambda>i. Fin (real i) * Fin (s * 0.4 / 49) + Fin (s * 0.8)) [0..<49] @ [Fin (s * 1.2)]"
    unfolding np_linspace_def start stop delta Let_def step using nz by simp
  also have "map (\<lambda>i. Fin (real i) * Fin (s * 0.4 / 49) + Fin (s * 0.8)) [0..<49]
             = map (\<lambda>i. Fin (0.8 * s + real i * ((1.2 * s - 0.8 * s) / 49))) [0..<49]"
    by (rule map_cong [OF refl]) (rule entry, simp)
  also have "map (\<lambda>i. Fin (0.8 * s + real i * ((1.2 * s - 0.8 * s) / 49))) [0..<49] @ [Fin (s * 1.2)]
             = map (\<lambda>i. Fin (0.8 * s + real i * ((1.2 * s - 0.8 * s) / 49))) ([0..<49] @ [49])"
    unfolding last by simp
  also have "[0..<49] @ [49] = [0..<50]"
    using upt_Suc_append [of 0 49] by simp
  finally show ?thesis .
qed

text \<open>
  C6, as stated, at the spot price \<open>S = 1.7 10\<^sup>3\<^sup>0\<^sup>8\<close>, a double: \<open>1.2 S\<close> overflows to
  infinity, the step of the grid is infinite, and the strikes are not-a-number followed
  by 49 infinities: not evenly spaced over \<open>[0.8 S, 1.2 S]\<close> and not strictly ascending.
  (Here with no simulated volatility, so that every entry of the curve is the sentinel.)
\<close>

lemma overflowing_grid:
  "np_linspace (Fin (17 * 10 ^ 307) * Fin 0.8) (Fin (17 * 10 ^ 307) * Fin 1.2) 50
   = NaN # replicate 49 PosInf"
proof -
  have start: "Fin (17 * 10 ^ 307) * Fin 0.8 = Fin (136 * 10 ^ 306)"
    by (simp add: to_double_def to_inf_def overflow_threshold_def underflow_threshold_def)
  have stop: "Fin (17 * 10 ^ 307) * Fin 1.2 = PosInf"
    by (simp add: to_double_def to_inf_def overflow_threshold_def underflow_threshold_def)
  have body: "map (\<lambda>i. (if i = 0 then NaN else if 0 < real i then PosInf else NegInf) + Fin c) [0..<49]
              = NaN # replicate 48 PosInf" for c
  proof -
    have "[0..<49] = 0 # [Suc 0..<49]" by (simp add: upt_conv_Cons)
    moreover have "map (\<lambda>i. (if i = 0 then NaN else if 0 < real i then PosInf else NegInf) + Fin c)
                     [Suc 0..<49]
                   = map (\<lambda>i. PosInf) [Suc 0..<49]"
      by (rule map_cong [OF refl]) simp
    moreover have "map (\<lambda>i. PosInf :: float64) [Suc 0..<49] = replicate 48 PosInf"
      by (simp add: map_replicate_const)
    ultimately show ?thesis by simp
  qed
  have "replicate 48 PosInf @ [PosInf :: float64] = replicate 49 PosInf"
    using replicate_append_same [of 48 "PosInf :: float64"] replicate_Suc [of 48 "PosInf :: float64"]
    by simp
  then show ?thesis
    unfolding np_linspace_def start stop Let_def
    by (simp add: minus_float64_def body)
qed

theorem smile_strike_grid_overflow_counterexample:
  "fst (monte_carlo_volatility_smile scipy_norm replay [] (Fin (17 * 10 ^ 307)) (Fin 1) (Fin 0.05)
          (Fin 0.2) 0)
   = Inr (NaN # replicate 49 PosInf, replicate 50 NaN)"
proof -
  have "map (\<lambda>K. NaN :: float64) (NaN # replicate 49 PosInf) = replicate 50 NaN"
    using map_replicate_const [of "NaN :: float64" "NaN # replicate 49 PosInf"] by simp
  then show ?thesis
    unfolding smile_run overflowing_grid smile_vols_no_samples by simp
qed

text \<open>
  C6, amended. The smile calibrator returns 50 strikes and 50 volatilities: 50 is a
  constant of the code, not a parameter. For a spot price \<open>S\<close> between \<open>2\<^sup>-\<^sup>1\<^sup>0\<^sup>0\<close> and
  \<open>2\<^sup>1\<^sup>0\<^sup>0\<close> the \<open>i\<close>-th strike is \<open>0.8 S + i (1.2 S - 0.8 S) / 49\<close>: evenly spaced, from
  \<open>0.8 S\<close> to \<open>1.2 S\<close> inclusive, strictly ascending. The \<open>i\<close>-th volatility is the
  entry for the \<open>i\<close>-th strike, computed with the generator as \<open>i\<close> draws have left
  it, sentinel or not.
\<close>

theorem smile_strike_grid:
  assumes "in_range s"
  shows "\<exists>strikes vols g'.
           monte_carlo_volatility_smile P rng g (Fin s) T r base_volatility n_simulations
             = (Inr (strikes, vols), g') \<and>
           length strikes = 50 \<and> length vols = 50 \<and>
           (\<forall>i<50. strikes ! i = Fin (0.8 * s + real i * ((1.2 * s - 0.8 * s) / 49))) \<and>
           strikes ! 0 = Fin (0.8 * s) \<and> strikes ! 49 = Fin (1.2 * s) \<and>
           (\<forall>i<49. strikes ! i < strikes ! Suc i) \<and>
           (\<forall>i<50. vols ! i =
              smile_point P rng (Fin s) T r base_volatility n_simulations (strikes ! i)
                ((next_gen rng base_volatility n_simulations ^^ i) g))"
proof -
  let ?strikes = "map (\<lambda>i. Fin (0.8 * s + real i * ((1.2 * s - 0.8 * s) / 49))) [0..<50]"
  let ?vols = "smile_vols P rng (Fin s) T r base_volatility n_simulations ?strikes g"
  have sp: "0 < s" using assms by (rule in_range_pos)
  have run: "monte_carlo_volatility_smile P rng g (Fin s) T r base_volatility n_simulations
             = (Inr (?strikes, ?vols), (next_gen rng base_volatility n_simulations ^^ 50) g)"
    unfolding smile_run strike_grid [OF assms] ..
  have nth: "?strikes ! i = Fin (0.8 * s + real i * ((1.2 * s - 0.8 * s) / 49))" if "i < 50" for i
    using that by simp
  have asc: "?strikes ! i < ?strikes ! Suc i" if "i < 49" for i
    using that sp by simp
  have vols: "?vols ! i = smile_point P rng (Fin s) T r base_volatility n_simulations (?strikes ! i)
                ((next_gen rng base_volatility n_simulations ^^ i) g)" if "i < 50" for i
    by (rule smile_vols_nth) (use that in simp)
  have first: "?strikes ! 0 = Fin (0.8 * s)" using nth [of 0] by simp
  have last: "?strikes ! 49 = Fin (1.2 * s)" using nth [of 49] by simp
  have len: "length ?strikes = 50" "length ?vols = 50"
    by (simp_all add: smile_vols_length)
  show ?thesis
    using run len nth first last asc vols by blast
qed

theorem smile_strike_grid_witness:
  "in_range 100 \<and>
   (\<exists>strikes vols g'.
      monte_carlo_volatility_smile scipy_norm replay [] (Fin 100) (Fin 1) (Fin 0.05) (Fin 0.2) 100
        = (Inr (strikes, vols), g') \<and>
      length strikes = 50 \<and> length vols = 50 \<and>
      (\<forall>i<50. strikes ! i = Fin (0.8 * 100 + real i * ((1.2 * 100 - 0.8 * 100) / 49))) \<and>
      strikes ! 0 = Fin (0.8 * 100) \<and> strikes ! 49 = Fin (1.2 * 100) \<and>
      (\<forall>i<49. strikes ! i < strikes ! Suc i) \<and>
      (\<forall>i<50. vols ! i =
         smile_point scipy_norm replay (Fin 100) (Fin 1) (Fin 0.05) (Fin 0.2) 100 (strikes ! i)
           ((next_gen replay (Fin 0.2) 100 ^^ i) [])))"
proof -
  have h: "in_range 100" by (simp add: in_range_def mag_def)
  show ?thesis
    using h smile_strike_grid [OF h, of scipy_norm replay "[]" "Fin 1" "Fin 0.05" "Fin 0.2" 100]
    by blast
qed


subsection \<open>The closed-form pricers with the standard normal distribution\<close>





lemma example_truediv: "truediv (Fin 100) (PyFloat (Fin 100)) = Inr (Fin 1)"
proof -
  have "representable (100 / 100 :: real)"
    by (simp add: representable_def magz_def mag_def)
  then show ?thesis by (simp only: truediv.simps divide_Fin) simp
qed

lemma example_square: "square (PyFloat (Fin 0.2)) = Inr (Fin 0.04)"
proof -
  have "representable (0.2 * 0.2 :: real)"
    by (simp add: representable_def magz_def mag_def)
  from times_Fin [OF this] show ?thesis
    by (simp add: overflow_threshold_def)
qed

subsection \<open>The option type of BSM\<close>




subsection \<open>An option type other than call and put\<close>

text \<open>
  C4, as stated, at the type \<^verbatim>\<open>"straddle"\<close> with \<open>S = K = 100\<close>, \<open>T = 1\<close>,
  \<open>r = 0.05\<close>, \<open>sigma = 0.2\<close>: \<^verbatim>\<open>BSM\<close> returns a price, the put price.
\<close>

theorem BSM_invalid_type_counterexample:
  "BSM scipy_norm (Fin 100) (PyFloat (Fin 100)) (Fin 1) (Fin 0.05) (PyFloat (Fin 0.2)) ''straddle''
     = Inr (Fin (put_formula scipy_norm 100 100 1 0.05 0.2))"
proof (rule BSM_put_fin [OF _ _ _ example_moderate])
  show "cdf_in_range scipy_norm (- d1_formula 100 100 1 0.05 0.2)"
    unfolding example_d1 by (rule std_norm_cdf_in_range) simp
  show "cdf_in_range scipy_norm (- d2_formula 100 100 1 0.05 0.2)"
    unfolding example_d1 by (rule std_norm_cdf_in_range) simp
qed simp_all

text \<open>
  C4, amended. For every option type other than \<^verbatim>\<open>"call"\<close> and \<^verbatim>\<open>"put"\<close>, and
  whenever neither the division \<^verbatim>\<open>S / K\<close> nor the power \<^verbatim>\<open>sigma**2\<close> raises before
  the type is looked at, \<^verbatim>\<open>black_scholes\<close> raises the invalid-option-type error, and
  \<^verbatim>\<open>BSM\<close>, which does not validate the type, returns what it returns for a put.
\<close>

theorem invalid_option_type:
  assumes "option_type \<noteq> ''call''" "option_type \<noteq> ''put''" and "truediv S K = Inr q"
    and "square sigma = Inr sq"
  shows "black_scholes P S K T r sigma option_type = Inl InvalidOptionType \<and>
         BSM P S K T r sigma option_type = BSM P S K T r sigma ''put'' \<and>
         \<not> isl (BSM P S K T r sigma option_type)"
  using assms by (simp add: black_scholes_def BSM_def Let_def)

theorem invalid_option_type_witness:
  "''straddle'' \<noteq> ''call'' \<and> ''straddle'' \<noteq> ''put'' \<and>
   truediv (Fin 100) (PyFloat (Fin 100)) = Inr (Fin 1) \<and>
   square (PyFloat (Fin 0.2)) = Inr (Fin 0.04) \<and>
   black_scholes scipy_norm (Fin 100) (PyFloat (Fin 100)) (Fin 1) (Fin 0.05) (PyFloat (Fin 0.2))
     ''straddle'' = Inl InvalidOptionType \<and>
   BSM scipy_norm (Fin 100) (PyFloat (Fin 100)) (Fin 1) (Fin 0.05) (PyFloat (Fin 0.2)) ''straddle''
     = BSM scipy_norm (Fin 100) (PyFloat (Fin 100)) (Fin 1) (Fin 0.05) (PyFloat (Fin 0.2)) ''put'' \<and>
   \<not> isl (BSM scipy_norm (Fin 100) (PyFloat (Fin 100)) (Fin 1) (Fin 0.05) (PyFloat (Fin 0.2))
            ''straddle'')"
proof -
  have h: "''straddle'' \<noteq> ''call''" "''straddle'' \<noteq> ''put''"
    by simp_all
  show ?thesis
    using h example_truediv example_square
      invalid_option_type [OF h example_truediv example_square]
    by blast
qed

text \<open>
  The Monte Carlo pricer assigns \<^verbatim>\<open>payoff\<close> for a call and for a put only: for any
  other type it stops at \<^verbatim>\<open>np.mean(payoff)\<close>, on the unassigned variable.
\<close>

lemma monte_carlo_other_type:
  assumes "option_type \<noteq> ''call''" "option_type \<noteq> ''put''" and "square sigma = Inr sq"
  shows "fst (monte_carlo_option_pricing rng g S0 K T r sigma N option_type)
         = Inl UnboundLocalError"
  using assms by (simp add: monte_carlo_option_pricing_def Let_def split: prod.splits)


subsection \<open>The pricers at zero volatility\<close>













subsection \<open>A zero denominator\<close>




subsection \<open>Call-put parity\<close>





end
